theory Spec2Isabelle
  imports Complex_Main "HOL-Library.Multiset" "HOL-Library.Sublist"
begin

section \<open>Strings\<close>

text \<open>
  JavaScript strings are modelled as \<^typ>\<open>string\<close>, one \<^typ>\<open>char\<close> per code unit.
  The model is exact for ASCII text: case mapping acts on the letters A-Z and a-z,
  \<^verbatim>\<open>\s\<close> is the ASCII white space (space, tab, line feed, vertical tab, form feed,
  carriage return), \<^verbatim>\<open>\w\<close> is \<^verbatim>\<open>[A-Za-z0-9_]\<close> and \<^verbatim>\<open>\d\<close> is \<^verbatim>\<open>[0-9]\<close>.
  A property that is \<^verbatim>\<open>undefined\<close>, \<^verbatim>\<open>null\<close> or the empty string is the empty string
  wherever the source only tests it for truthiness (\<^verbatim>\<open>x || ''\<close>, \<^verbatim>\<open>if (x)\<close>).
\<close>

definition isSpace :: "char \<Rightarrow> bool" where
  "isSpace c = (c \<in> set [CHR '' '', CHR 0x09, CHR 0x0A, CHR 0x0B, CHR 0x0C, CHR 0x0D])"

definition isUpper :: "char \<Rightarrow> bool" where
  "isUpper c = (let n = (of_char c :: nat) in 65 \<le> n \<and> n \<le> 90)"

definition isLower :: "char \<Rightarrow> bool" where
  "isLower c = (let n = (of_char c :: nat) in 97 \<le> n \<and> n \<le> 122)"

definition isDigit :: "char \<Rightarrow> bool" where
  "isDigit c = (let n = (of_char c :: nat) in 48 \<le> n \<and> n \<le> 57)"

definition isWordChar :: "char \<Rightarrow> bool" where
  "isWordChar c = (isUpper c \<or> isLower c \<or> isDigit c \<or> c = CHR ''_'')"

definition toLowerChar :: "char \<Rightarrow> char" where
  "toLowerChar c = (if isUpper c then char_of (of_char c + (32::nat)) else c)"

definition toUpperChar :: "char \<Rightarrow> char" where
  "toUpperChar c = (if isLower c then char_of (of_char c - (32::nat)) else c)"

definition toLowerCase :: "string \<Rightarrow> string" where
  "toLowerCase s = map toLowerChar s"

text \<open>\<^verbatim>\<open>s.trim()\<close>\<close>

definition trim :: "string \<Rightarrow> string" where
  "trim s = rev (dropWhile isSpace (rev (dropWhile isSpace s)))"

text \<open>\<^verbatim>\<open>s.replace(/\s+/g, ' ')\<close>: every maximal run of white space becomes one space.
  The flag says whether the previous character was white space.\<close>

fun collapseWs :: "bool \<Rightarrow> string \<Rightarrow> string" where
  "collapseWs prevWs [] = []"
| "collapseWs prevWs (c # cs) =
     (if isSpace c then (if prevWs then collapseWs True cs else CHR '' '' # collapseWs True cs)
      else c # collapseWs False cs)"

text \<open>\<^verbatim>\<open>s.split(/\s+/)\<close>: the pieces between maximal runs of white space; a string that
  starts or ends with white space gives an empty first or last piece, and the empty
  string gives one empty piece.\<close>

fun splitWsAux :: "bool \<Rightarrow> string \<Rightarrow> string \<Rightarrow> string list" where
  "splitWsAux inWs cur [] = [rev cur]"
| "splitWsAux inWs cur (c # cs) =
     (if isSpace c then (if inWs then splitWsAux True cur cs else rev cur # splitWsAux True [] cs)
      else splitWsAux False (c # cur) cs)"

definition splitWs :: "string \<Rightarrow> string list" where
  "splitWs s = splitWsAux False [] s"

text \<open>Decimal numerals, for \<^verbatim>\<open>`group-${groups.length + 1}`\<close> and for the integer-like
  keys of an object.\<close>

definition digitChar :: "nat \<Rightarrow> char" where
  "digitChar d = char_of (48 + d)"

function showNat :: "nat \<Rightarrow> string" where
  "showNat n = (if n < 10 then [digitChar n] else showNat (n div 10) @ [digitChar (n mod 10)])"
  by pat_completeness auto
termination
  by (relation "measure id") auto

declare showNat.simps [simp del]

definition decimalValue :: "string \<Rightarrow> int" where
  "decimalValue s = foldl (\<lambda>acc c. 10 * acc + (of_char c - 48)) 0 s"

section \<open>Articles\<close>

text \<open>The normalized article of \<^verbatim>\<open>services/normalize.js\<close>; the field \<^verbatim>\<open>id\<close> is
  \<open>articleId\<close> here.\<close>

record article =
  articleId :: string
  source :: string
  title :: string
  description :: string
  content :: string
  url :: string
  imageUrl :: string
  publishedAt :: string
  author :: string
  language :: string

section \<open>Similarity (articleGrouper.js)\<close>

definition normalizeText :: "string \<Rightarrow> string" where
  "normalizeText text =
     (if text = [] then []
      else trim (collapseWs False
             (map (\<lambda>c. if isWordChar c \<or> isSpace c then c else CHR '' '') (toLowerCase text))))"

text \<open>
  \<^verbatim>\<open>wordCounts\<close> is a plain object used as a dictionary. It is an association list in
  insertion order; \<^verbatim>\<open>Object.entries\<close> lists the integer-like keys first, in ascending
  numeric order, and then the other keys in insertion order. The words
  \<^verbatim>\<open>constructor\<close> and \<^verbatim>\<open>__proto__\<close>, for which \<^verbatim>\<open>wordCounts[word]\<close> reads a property
  inherited from \<^verbatim>\<open>Object.prototype\<close>, are outside this model.
\<close>

fun bumpCount :: "(string \<times> nat) list \<Rightarrow> string \<Rightarrow> (string \<times> nat) list" where
  "bumpCount [] w = [(w, 1)]"
| "bumpCount ((k, c) # kcs) w = (if k = w then (k, c + 1) # kcs else (k, c) # bumpCount kcs w)"

definition isArrayIndex :: "string \<Rightarrow> bool" where
  "isArrayIndex k =
     (k \<noteq> [] \<and> list_all isDigit k \<and> (if hd k = CHR ''0'' then k = ''0'' else True) \<and> decimalValue k < 4294967295)"

definition objectEntries :: "(string \<times> nat) list \<Rightarrow> (string \<times> nat) list" where
  "objectEntries kcs =
     sort_key (\<lambda>kc. decimalValue (fst kc)) (filter (\<lambda>kc. isArrayIndex (fst kc)) kcs)
     @ filter (\<lambda>kc. \<not> isArrayIndex (fst kc)) kcs"

text \<open>\<^verbatim>\<open>Array.prototype.sort\<close> is stable; \<^const>\<open>sort_key\<close> is the stable insertion sort.
  The comparator \<^verbatim>\<open>(a, b) => b[1] - a[1]\<close> orders by descending count.\<close>

definition extractKeyTerms :: "string \<Rightarrow> nat \<Rightarrow> string list" where
  "extractKeyTerms text maxTerms =
     (let normalized = normalizeText text;
          words = filter (\<lambda>word. length word > 3) (splitWs normalized);
          wordCounts = foldl bumpCount [] words
      in map fst (take maxTerms (sort_key (\<lambda>kc. - int (snd kc)) (objectEntries wordCounts))))"

definition jaccardSimilarity :: "string set \<Rightarrow> string set \<Rightarrow> real" where
  "jaccardSimilarity set1 set2 =
     (if card set1 = 0 \<and> card set2 = 0 then 1
      else if card set1 = 0 \<or> card set2 = 0 then 0
      else real (card (set1 \<inter> set2)) / real (card (set1 \<union> set2)))"

text \<open>
  \<^verbatim>\<open>new Date(s)\<close> and \<^verbatim>\<open>new URL(s)\<close> are library functions; they are parameters:
  \<open>parseDate s\<close> is the time value in milliseconds, \<open>None\<close> for an invalid date (NaN, for
  which \<^verbatim>\<open>daysDiff <= 7\<close> is false), and \<open>hostname s\<close> is the host name of the URL,
  \<open>None\<close> when the constructor throws. Scores are real numbers.
\<close>

definition timeBonus :: "(string \<Rightarrow> int option) \<Rightarrow> article \<Rightarrow> article \<Rightarrow> real" where
  "timeBonus parseDate article1 article2 =
     (if publishedAt article1 \<noteq> [] \<and> publishedAt article2 \<noteq> [] then
        (case (parseDate (publishedAt article1), parseDate (publishedAt article2)) of
           (Some date1, Some date2) \<Rightarrow>
             (let daysDiff = real_of_int \<bar>date1 - date2\<bar> / (1000 * 60 * 60 * 24)
              in if daysDiff \<le> 7 then 0.1 else 0)
         | _ \<Rightarrow> 0)
      else 0)"

definition urlBonus :: "(string \<Rightarrow> string option) \<Rightarrow> article \<Rightarrow> article \<Rightarrow> real" where
  "urlBonus hostname article1 article2 =
     (case hostname (url article1) of
        None \<Rightarrow> 0
      | Some host1 \<Rightarrow>
          (case hostname (url article2) of
             None \<Rightarrow> 0
           | Some host2 \<Rightarrow> if host1 = host2 then 0.05 else 0))"

definition calculateSimilarity ::
  "(string \<Rightarrow> int option) \<Rightarrow> (string \<Rightarrow> string option) \<Rightarrow> article \<Rightarrow> article \<Rightarrow> real" where
  "calculateSimilarity parseDate hostname article1 article2 =
     (let text1 = title article1 @ '' '' @ description article1;
          text2 = title article2 @ '' '' @ description article2;
          terms1 = set (extractKeyTerms text1 10);
          terms2 = set (extractKeyTerms text2 10);
          textSimilarity = jaccardSimilarity terms1 terms2
      in min 1 (textSimilarity + timeBonus parseDate article1 article2
                  + urlBonus hostname article1 article2))"

section \<open>Clustering (articleGrouper.js)\<close>

record articleGroup =
  groupId :: string
  articles :: "article list"

text \<open>
  The inner loop \<^verbatim>\<open>for (const group of groups)\<close>. \<^verbatim>\<open>bestGroup\<close> is a reference to
  an element of \<^verbatim>\<open>groups\<close>; it is the index of that element here, \<open>None\<close> for
  \<^verbatim>\<open>null\<close>. The argument \<open>j\<close> is the index of the first group of the list still to
  visit. \<^verbatim>\<open>group.articles[0]\<close> is \<open>hd (articles grp)\<close>: every group of the
  clustering holds at least one article (\<open>groupLoop_nonempty\<close> below).
\<close>

fun findBestGroup ::
  "(article \<Rightarrow> article \<Rightarrow> real) \<Rightarrow> real \<Rightarrow> article \<Rightarrow> articleGroup list \<Rightarrow> nat
     \<Rightarrow> nat option \<times> real \<Rightarrow> nat option \<times> real" where
  "findBestGroup sim similarityThreshold article [] j best = best"
| "findBestGroup sim similarityThreshold article (grp # rest) j (bestGroup, bestSimilarity) =
     (let similarity = sim article (hd (articles grp))
      in findBestGroup sim similarityThreshold article rest (Suc j)
           (if similarity \<ge> similarityThreshold \<and> similarity > bestSimilarity
            then (Some j, similarity) else (bestGroup, bestSimilarity)))"

text \<open>One round of the outer loop, on the state \<open>(groups, used)\<close>.\<close>

definition groupStep ::
  "(article \<Rightarrow> article \<Rightarrow> real) \<Rightarrow> real \<Rightarrow> article list \<Rightarrow> nat
     \<Rightarrow> articleGroup list \<times> nat set \<Rightarrow> articleGroup list \<times> nat set" where
  "groupStep sim similarityThreshold arts i st =
     (case st of (groups, used) \<Rightarrow>
        if i \<in> used then (groups, used)
        else
          (let article = arts ! i
           in case fst (findBestGroup sim similarityThreshold article groups 0 (None, 0)) of
                Some b \<Rightarrow>
                  (groups[b := (groups ! b)\<lparr>articles := articles (groups ! b) @ [article]\<rparr>],
                   insert i used)
              | None \<Rightarrow>
                  (groups @ [\<lparr>groupId = ''group-'' @ showNat (length groups + 1),
                              articles = [article]\<rparr>],
                   insert i used)))"

definition groupLoop ::
  "(article \<Rightarrow> article \<Rightarrow> real) \<Rightarrow> real \<Rightarrow> article list \<Rightarrow> nat
     \<Rightarrow> articleGroup list \<times> nat set" where
  "groupLoop sim similarityThreshold arts n =
     fold (groupStep sim similarityThreshold arts) [0..<n] ([], {})"

text \<open>\<^verbatim>\<open>groups.sort((a, b) => b.articles.length - a.articles.length)\<close>: stable, larger
  groups first. The default of \<^verbatim>\<open>similarityThreshold\<close> is \<open>0.3\<close>.\<close>

definition groupSimilarArticles ::
  "(string \<Rightarrow> int option) \<Rightarrow> (string \<Rightarrow> string option) \<Rightarrow> article list \<Rightarrow> real
     \<Rightarrow> articleGroup list" where
  "groupSimilarArticles parseDate hostname arts similarityThreshold =
     (if arts = [] then []
      else sort_key (\<lambda>grp. - int (length (articles grp)))
             (fst (groupLoop (calculateSimilarity parseDate hostname) similarityThreshold
                     arts (length arts))))"

definition defaultSimilarityThreshold :: real where
  "defaultSimilarityThreshold = 0.3"

text \<open>Sample articles for the concrete runs below; their URLs are not absolute,
  so \<^verbatim>\<open>new URL\<close> throws on them, and they have no publication date.\<close>

definition sampleArticle :: "string \<Rightarrow> string \<Rightarrow> string \<Rightarrow> article" where
  "sampleArticle src ttl link =
     \<lparr>articleId = [], source = src, title = ttl, description = [], content = [], url = link,
      imageUrl = [], publishedAt = [], author = [], language = ''en''\<rparr>"

definition thresholdPool :: "article list" where
  "thresholdPool =
     [sampleArticle ''guardian'' ''papa romeo uniform victor'' ''u1'',
      sampleArticle ''gdelt'' ''papa quebec romeo sierra'' ''u2'',
      sampleArticle ''currents'' ''papa quebec'' ''u3'',
      sampleArticle ''guardian'' ''romeo sierra'' ''u4'']"

definition tiePool :: "article list" where
  "tiePool =
     [sampleArticle ''guardian'' ''alpha'' ''u1'',
      sampleArticle ''gdelt'' ''bravo'' ''u2'',
      sampleArticle ''currents'' ''charlie'' ''u3'']"

definition positiveTiePool :: "article list" where
  "positiveTiePool =
     [sampleArticle ''guardian'' ''alpha bravo'' ''u1'',
      sampleArticle ''gdelt'' ''charlie delta'' ''u2'',
      sampleArticle ''currents'' ''alpha charlie'' ''u3'']"

section \<open>Group filter and ranking (routes/newsAggregate.js)\<close>

text \<open>\<^verbatim>\<open>[...new Set(xs)]\<close>: the distinct elements in order of first occurrence.\<close>

definition uniqueInOrder :: "'a list \<Rightarrow> 'a list" where
  "uniqueInOrder xs = rev (remdups (rev xs))"

text \<open>The callback of \<^verbatim>\<open>groups.filter\<close>.\<close>

definition keepGroup :: "articleGroup \<Rightarrow> bool" where
  "keepGroup grp =
     (let uniqueSources = uniqueInOrder (map source (articles grp))
      in if length uniqueSources < 2 then False
         else if length (articles grp) > 1 then
           (let normalizedTitles = map (\<lambda>a. trim (toLowerCase (title a))) (articles grp);
                firstTitle = normalizedTitles ! 0;
                allIdentical = list_all (\<lambda>t. t = firstTitle \<and> length t > 0) normalizedTitles
            in if allIdentical then False else True)
         else True)"

text \<open>\<^verbatim>\<open>getLatestDate\<close>: the largest positive time value among the articles, 0 when
  there is none; an invalid date is NaN and fails \<^verbatim>\<open>d > 0\<close>.\<close>

definition getLatestDate :: "(string \<Rightarrow> int option) \<Rightarrow> articleGroup \<Rightarrow> int" where
  "getLatestDate parseDate grp =
     (let dates = filter (\<lambda>d. d > 0)
            (concat (map (\<lambda>a. if publishedAt a \<noteq> []
                                then (case parseDate (publishedAt a) of Some d \<Rightarrow> [d] | None \<Rightarrow> [])
                                else [0]) (articles grp)))
      in if length dates > 0 then foldr max dates 0 else 0)"

definition filterAndSortGroups ::
  "(string \<Rightarrow> int option) \<Rightarrow> articleGroup list \<Rightarrow> articleGroup list" where
  "filterAndSortGroups parseDate groups =
     (let filteredGroups = filter keepGroup groups
      in sort_key (\<lambda>grp. - getLatestDate parseDate grp) filteredGroups)"

section \<open>Pagination (routes/newsAggregate.js)\<close>

text \<open>A JavaScript number that is an integer or NaN: \<open>None\<close> is NaN.\<close>

type_synonym jsnum = "int option"

text \<open>\<^verbatim>\<open>parseInt(s, 10)\<close>: leading white space, an optional sign, then the longest run
  of decimal digits; NaN when there is no digit.\<close>

definition parseInt10 :: "string \<Rightarrow> jsnum" where
  "parseInt10 s =
     (let t = dropWhile isSpace s;
          negative = (take 1 t = ''-'');
          u = (if take 1 t = ''-'' \<or> take 1 t = ''+'' then drop 1 t else t);
          ds = takeWhile isDigit u
      in if ds = [] then None
         else Some (if negative then - decimalValue ds else decimalValue ds))"

text \<open>\<^verbatim>\<open>const pageNum = page ? parseInt(page, 10) : 1\<close>; an absent parameter is the
  empty string.\<close>

definition pageNumOf :: "string \<Rightarrow> jsnum" where
  "pageNumOf page = (if page \<noteq> [] then parseInt10 page else Some 1)"

definition mathMin :: "jsnum \<Rightarrow> jsnum \<Rightarrow> jsnum" where
  "mathMin a b = (case a of None \<Rightarrow> None | Some x \<Rightarrow> (case b of None \<Rightarrow> None | Some y \<Rightarrow> Some (min x y)))"

definition mathMax :: "jsnum \<Rightarrow> jsnum \<Rightarrow> jsnum" where
  "mathMax a b = (case a of None \<Rightarrow> None | Some x \<Rightarrow> (case b of None \<Rightarrow> None | Some y \<Rightarrow> Some (max x y)))"

text \<open>\<^verbatim>\<open>xs.slice(start, end)\<close>: NaN counts as 0, a negative index counts from the
  end, and both indices are clamped to the length.\<close>

definition sliceIndex :: "nat \<Rightarrow> jsnum \<Rightarrow> nat" where
  "sliceIndex len i =
     (case i of
        None \<Rightarrow> 0
      | Some r \<Rightarrow> if r < 0 then nat (max (int len + r) 0) else nat (min r (int len)))"

definition jsSlice :: "'a list \<Rightarrow> jsnum \<Rightarrow> jsnum \<Rightarrow> 'a list" where
  "jsSlice xs start end =
     (let k = sliceIndex (length xs) start;
          final = sliceIndex (length xs) end
      in take (final - k) (drop k xs))"

record 'g pageResponse =
  finalGroups :: "'g list"
  currentPage :: jsnum
  totalPages :: int
  totalGroups :: nat
  groupsPerPage :: nat

definition GROUPS_PER_PAGE :: nat where
  "GROUPS_PER_PAGE = 9"

definition paginate :: "'g list \<Rightarrow> jsnum \<Rightarrow> 'g pageResponse" where
  "paginate summarizedGroups pageNum =
     (let perPage = GROUPS_PER_PAGE;
          pages = max 1 \<lceil>real (length summarizedGroups) / real perPage\<rceil>;
          current = mathMax (Some 1) (mathMin pageNum (Some pages));
          startIndex = map_option (\<lambda>c. (c - 1) * int perPage) current;
          endIndex = map_option (\<lambda>s. s + int perPage) startIndex;
          sliced = jsSlice summarizedGroups startIndex endIndex;
          enforced = (if length sliced > perPage then jsSlice sliced (Some 0) (Some (int perPage))
                      else sliced);
          final = (if length enforced > GROUPS_PER_PAGE
                   then jsSlice enforced (Some 0) (Some (int GROUPS_PER_PAGE)) else enforced)
      in \<lparr>finalGroups = final, currentPage = current, totalPages = pages,
          totalGroups = length summarizedGroups, groupsPerPage = GROUPS_PER_PAGE\<rparr>)"

text \<open>Two sample groups for the filter: one with two sources, one with a single
  source.\<close>

definition multiSourceGroup :: articleGroup where
  "multiSourceGroup =
     \<lparr>groupId = ''group-1'',
      articles = [sampleArticle ''guardian'' ''Budget vote passes'' ''u1'',
                  sampleArticle ''gdelt'' ''Parliament passes the budget'' ''u2'']\<rparr>"

definition singleSourceGroup :: articleGroup where
  "singleSourceGroup =
     \<lparr>groupId = ''group-2'',
      articles = [sampleArticle ''guardian'' ''Storm hits the coast'' ''u3'',
                  sampleArticle ''guardian'' ''Coast hit by storm'' ''u4'']\<rparr>"

section \<open>Normalization (services/normalize.js)\<close>

text \<open>
  A raw provider record is a JSON object. Its string-valued properties are a map from
  property names to strings (\<open>None\<close> for a missing property); the nested \<^verbatim>\<open>fields\<close>
  object and the \<^verbatim>\<open>tags\<close> array of a Guardian record are fields of their own.
  \<^verbatim>\<open>crypto.createHash('md5')...digest('hex')\<close> is the parameter \<open>md5hex\<close>.
\<close>

record guardianFields =
  trailText :: "string option"
  bodyText :: "string option"
  thumbnail :: "string option"

record guardianTag =
  tagType :: "string option"
  tagWebTitle :: "string option"

record rawArticle =
  rawProp :: "string \<Rightarrow> string option"
  rawFields :: "guardianFields option"
  rawTags :: "guardianTag list option"

text \<open>Truthiness of a string-or-undefined value, and the chains \<^verbatim>\<open>a || b || c\<close>
  (the first truthy operand, the last operand when none is) and
  \<^verbatim>\<open>a || b || 'literal'\<close>.\<close>

definition truthy :: "string option \<Rightarrow> bool" where
  "truthy v = (case v of None \<Rightarrow> False | Some s \<Rightarrow> s \<noteq> [])"

fun orChain :: "string option list \<Rightarrow> string option" where
  "orChain [] = None"
| "orChain [a] = a"
| "orChain (a # b # rest) = (if truthy a then a else orChain (b # rest))"

definition orString :: "string option list \<Rightarrow> string \<Rightarrow> string" where
  "orString vs d = (case orChain vs of None \<Rightarrow> d | Some s \<Rightarrow> if s \<noteq> [] then s else d)"

text \<open>A value inside a template literal: \<^verbatim>\<open>undefined\<close> prints as such.\<close>

definition templateString :: "string option \<Rightarrow> string" where
  "templateString v = (case v of None \<Rightarrow> ''undefined'' | Some s \<Rightarrow> s)"

definition createArticleId ::
  "(string \<Rightarrow> string) \<Rightarrow> string \<Rightarrow> string option \<Rightarrow> string option \<Rightarrow> string" where
  "createArticleId md5hex src link ttl =
     (let hashInput = src @ '':'' @ templateString link @ '':'' @ templateString ttl;
          hash = take 8 (md5hex hashInput)
      in src @ ''-'' @ hash)"

text \<open>\<^verbatim>\<open>raw.fields?.x\<close>\<close>

definition fieldOf :: "(guardianFields \<Rightarrow> string option) \<Rightarrow> rawArticle \<Rightarrow> string option" where
  "fieldOf sel raw = (case rawFields raw of None \<Rightarrow> None | Some f \<Rightarrow> sel f)"

text \<open>\<^verbatim>\<open>raw.tags?.find(tag => tag.type === 'contributor')?.webTitle\<close>\<close>

definition contributorOf :: "rawArticle \<Rightarrow> string option" where
  "contributorOf raw =
     (case rawTags raw of
        None \<Rightarrow> None
      | Some ts \<Rightarrow>
          (case find (\<lambda>tag. tagType tag = Some ''contributor'') ts of
             None \<Rightarrow> None
           | Some tag \<Rightarrow> tagWebTitle tag))"

definition normalizeGuardian :: "(string \<Rightarrow> string) \<Rightarrow> rawArticle \<Rightarrow> article" where
  "normalizeGuardian md5hex raw =
     \<lparr>articleId = createArticleId md5hex ''guardian''
                    (orChain [rawProp raw ''webUrl'', rawProp raw ''id'']) (rawProp raw ''webTitle''),
      source = ''guardian'',
      title = orString [rawProp raw ''webTitle''] ''No title'',
      description = orString [fieldOf trailText raw, map_option (take 200) (fieldOf bodyText raw)] [],
      content = orString [fieldOf bodyText raw, fieldOf trailText raw] [],
      url = orString [rawProp raw ''webUrl''] [],
      imageUrl = orString [fieldOf thumbnail raw] [],
      publishedAt = orString [rawProp raw ''webPublicationDate''] [],
      author = orString [contributorOf raw] [],
      language = ''en''\<rparr>"

definition normalizeGdelt :: "(string \<Rightarrow> string) \<Rightarrow> rawArticle \<Rightarrow> article" where
  "normalizeGdelt md5hex raw =
     (let link = orString [rawProp raw ''url'', rawProp raw ''shareurl'', rawProp raw ''articleurl'',
                           rawProp raw ''articleURL''] [];
          ttl = orString [rawProp raw ''title'', rawProp raw ''seotitle'', rawProp raw ''seoTitle''] ''No title'';
          descr = orString [rawProp raw ''seodescription'', rawProp raw ''seoDescription'',
                            rawProp raw ''snippet'', rawProp raw ''description''] [];
          cont = orString [rawProp raw ''snippet'', rawProp raw ''body'', Some descr] [];
          published = orString [rawProp raw ''seendate'', rawProp raw ''seenDate'', rawProp raw ''date'',
                                rawProp raw ''time'', rawProp raw ''publishedAt'', rawProp raw ''published''] []
      in \<lparr>articleId = createArticleId md5hex ''gdelt'' (Some link) (Some ttl),
          source = ''gdelt'',
          title = ttl,
          description = descr,
          content = cont,
          url = link,
          imageUrl = orString [rawProp raw ''imageurl'', rawProp raw ''imageURL'', rawProp raw ''image''] [],
          publishedAt = published,
          author = orString [rawProp raw ''source'', rawProp raw ''sourceName'', rawProp raw ''author''] [],
          language = orString [rawProp raw ''language''] ''en''\<rparr>)"

definition normalizeCurrents :: "(string \<Rightarrow> string) \<Rightarrow> rawArticle \<Rightarrow> article" where
  "normalizeCurrents md5hex raw =
     \<lparr>articleId = createArticleId md5hex ''currents''
                    (Some (orString [rawProp raw ''url''] [])) (rawProp raw ''title''),
      source = ''currents'',
      title = orString [rawProp raw ''title''] ''No title'',
      description = orString [rawProp raw ''description''] [],
      content = orString [rawProp raw ''description'', rawProp raw ''content''] [],
      url = orString [rawProp raw ''url''] [],
      imageUrl = orString [rawProp raw ''image''] [],
      publishedAt = orString [rawProp raw ''published''] [],
      author = orString [rawProp raw ''author''] [],
      language = orString [rawProp raw ''language''] ''en''\<rparr>"

text \<open>The table \<^verbatim>\<open>normalizers\<close>; a source that is none of its three keys has no
  normalizer.\<close>

definition normalizers ::
  "string \<Rightarrow> ((string \<Rightarrow> string) \<Rightarrow> rawArticle \<Rightarrow> article) option" where
  "normalizers src =
     (if src = ''guardian'' then Some normalizeGuardian
      else if src = ''gdelt'' then Some normalizeGdelt
      else if src = ''currents'' then Some normalizeCurrents
      else None)"

definition hasUrl :: "rawArticle \<Rightarrow> bool" where
  "hasUrl a = truthy (orChain [rawProp a ''webUrl'', rawProp a ''url'', rawProp a ''articleurl'',
                               rawProp a ''shareurl''])"

definition hasTitle :: "rawArticle \<Rightarrow> bool" where
  "hasTitle a = truthy (orChain [rawProp a ''webTitle'', rawProp a ''title'', rawProp a ''seotitle''])"

definition normalizeArticles ::
  "(string \<Rightarrow> string) \<Rightarrow> rawArticle list \<Rightarrow> string \<Rightarrow> article list" where
  "normalizeArticles md5hex arts src =
     (case normalizers src of
        None \<Rightarrow> []
      | Some normalizer \<Rightarrow>
          (let filtered = filter (\<lambda>a. hasUrl a \<and> hasTitle a) arts;
               normalized = filter (\<lambda>a. url a \<noteq> [] \<and> title a \<noteq> [])
                              (map (normalizer md5hex) filtered)
           in normalized))"

text \<open>Sample raw Guardian records: a complete one, and one without any title. The
  sample runs take a constant function for the hash, which only the \<open>articleId\<close> depends on.\<close>

definition rawComplete :: rawArticle where
  "rawComplete =
     \<lparr>rawProp = map_of [(''webUrl'', ''https://www.theguardian.com/a''),
                      (''webTitle'', ''Budget vote passes''),
                      (''webPublicationDate'', ''2024-01-02T03:04:05Z'')],
      rawFields = Some \<lparr>trailText = Some ''The vote passed.'', bodyText = None, thumbnail = None\<rparr>,
      rawTags = None\<rparr>"

definition rawUntitled :: rawArticle where
  "rawUntitled =
     \<lparr>rawProp = map_of [(''webUrl'', ''https://www.theguardian.com/b'')],
      rawFields = None, rawTags = None\<rparr>"

text \<open>Two more sample records for the source \<^verbatim>\<open>guardian\<close>: one with its title under
  \<^verbatim>\<open>title\<close> and no \<^verbatim>\<open>webTitle\<close>, one with its address under \<^verbatim>\<open>url\<close> and no
  \<^verbatim>\<open>webUrl\<close>.\<close>

definition rawMisfiledTitle :: rawArticle where
  "rawMisfiledTitle =
     \<lparr>rawProp = map_of [(''webUrl'', ''https://www.theguardian.com/c''),
                         (''title'', ''Storm hits the coast'')],
      rawFields = None, rawTags = None\<rparr>"

definition rawMisfiledUrl :: rawArticle where
  "rawMisfiledUrl =
     \<lparr>rawProp = map_of [(''url'', ''https://www.theguardian.com/d''),
                         (''webTitle'', ''Storm hits the coast'')],
      rawFields = None, rawTags = None\<rparr>"

section \<open>Regular expressions\<close>

text \<open>
  The patterns of \<^verbatim>\<open>llmSummarizer.js\<close> are sequences of four kinds of atoms:
  \<open>Cls p\<close>, one character of the class \<open>p\<close>; \<open>Lits ls\<close>, an alternation of literal
  strings, compared without regard to case (all patterns carry the flag \<^verbatim>\<open>i\<close>) and tried
  in the order written; \<open>Rep lo hi p\<close>, the greedy repetition \<^verbatim>\<open>{lo,hi}\<close> of a character
  class (\<open>None\<close> for no upper bound, so \<^verbatim>\<open>*\<close> is \<open>Rep 0 None\<close> and \<^verbatim>\<open>+\<close> is
  \<open>Rep 1 None\<close>); and \<open>Eos\<close>, the end of the input (\<^verbatim>\<open>$\<close>). \<open>matchAtoms\<close> is the
  backtracking matcher at a fixed start position: it returns the rest of the input after
  the first match in the order a backtracking engine finds it (longest repetition first,
  alternatives left to right).
\<close>

datatype atom =
  Cls "char \<Rightarrow> bool"
| Lits "string list"
| Rep nat "nat option" "char \<Rightarrow> bool"
| Eos

definition ciPrefix :: "string \<Rightarrow> string \<Rightarrow> bool" where
  "ciPrefix l s = (length l \<le> length s \<and> toLowerCase (take (length l) s) = toLowerCase l)"

primrec firstSome :: "('a \<Rightarrow> 'b option) \<Rightarrow> 'a list \<Rightarrow> 'b option" where
  "firstSome f [] = None"
| "firstSome f (x # xs) = (case f x of Some y \<Rightarrow> Some y | None \<Rightarrow> firstSome f xs)"

definition repCount :: "nat option \<Rightarrow> (char \<Rightarrow> bool) \<Rightarrow> string \<Rightarrow> nat" where
  "repCount hi p s =
     (let k = length (takeWhile p s) in case hi of None \<Rightarrow> k | Some h \<Rightarrow> min h k)"

fun matchAtoms :: "atom list \<Rightarrow> string \<Rightarrow> string option" where
  "matchAtoms [] s = Some s"
| "matchAtoms (Cls p # rest) s =
     (case s of [] \<Rightarrow> None | c # cs \<Rightarrow> if p c then matchAtoms rest cs else None)"
| "matchAtoms (Lits ls # rest) s =
     firstSome (\<lambda>l. if ciPrefix l s then matchAtoms rest (drop (length l) s) else None) ls"
| "matchAtoms (Rep lo hi p # rest) s =
     firstSome (\<lambda>n. matchAtoms rest (drop n s)) (rev [lo ..< Suc (repCount hi p s)])"
| "matchAtoms (Eos # rest) s = (if s = [] then matchAtoms rest s else None)"

text \<open>The search of an unanchored pattern: the first start position, from the left, at
  which the pattern matches, with the text before the match, the match and the text after
  it. The second argument is the text already passed, reversed.\<close>

fun searchFrom :: "atom list \<Rightarrow> string \<Rightarrow> string \<Rightarrow> (string \<times> string \<times> string) option" where
  "searchFrom pat pre [] =
     (case matchAtoms pat [] of Some r \<Rightarrow> Some (rev pre, [], r) | None \<Rightarrow> None)"
| "searchFrom pat pre (c # cs) =
     (case matchAtoms pat (c # cs) of
        Some r \<Rightarrow> Some (rev pre, take (length (c # cs) - length r) (c # cs), r)
      | None \<Rightarrow> searchFrom pat (c # pre) cs)"

text \<open>\<^verbatim>\<open>re.test(s)\<close> for a pattern \<^verbatim>\<open>/^...$/\<close>, \<^verbatim>\<open>s.match(re)\<close> (the matched text),
  \<^verbatim>\<open>s.replace(/^.../, '')\<close> and \<^verbatim>\<open>s.replace(re, '')\<close> for patterns without the flag
  \<^verbatim>\<open>g\<close>.\<close>

definition testAnchored :: "atom list \<Rightarrow> string \<Rightarrow> bool" where
  "testAnchored pat s = (case matchAtoms pat s of None \<Rightarrow> False | Some r \<Rightarrow> True)"

definition matchText :: "atom list \<Rightarrow> string \<Rightarrow> string option" where
  "matchText pat s = (case searchFrom pat [] s of None \<Rightarrow> None | Some (pre, m, post) \<Rightarrow> Some m)"

definition replaceStart :: "atom list \<Rightarrow> string \<Rightarrow> string" where
  "replaceStart pat s = (case matchAtoms pat s of None \<Rightarrow> s | Some r \<Rightarrow> r)"

definition replaceFirst :: "atom list \<Rightarrow> string \<Rightarrow> string" where
  "replaceFirst pat s = (case searchFrom pat [] s of None \<Rightarrow> s | Some (pre, m, post) \<Rightarrow> pre @ post)"

text \<open>Character classes: \<^verbatim>\<open>[A-Z]\<close> under the flag \<^verbatim>\<open>i\<close>, \<^verbatim>\<open>[^.!?]\<close> and \<^verbatim>\<open>.\<close>\<close>

definition isLetter :: "char \<Rightarrow> bool" where
  "isLetter c = (isUpper c \<or> isLower c)"

definition notSentenceEnd :: "char \<Rightarrow> bool" where
  "notSentenceEnd c = (c \<noteq> CHR ''.'' \<and> c \<noteq> CHR ''!'' \<and> c \<noteq> CHR ''?'')"

definition notLineEnd :: "char \<Rightarrow> bool" where
  "notLineEnd c = (c \<noteq> CHR 0x0A \<and> c \<noteq> CHR 0x0D)"

section \<open>Title generation (llmSummarizer.js)\<close>

text \<open>\<^verbatim>\<open>s.charAt(0).toUpperCase() + s.slice(1)\<close>, \<^verbatim>\<open>s.lastIndexOf(' ')\<close>,
  \<^verbatim>\<open>s.split(/[.!?]/)[0]\<close>, \<^verbatim>\<open>s.toLowerCase().includes(p)\<close>, \<^verbatim>\<open>xs.join(sep)\<close>.\<close>

definition capitalizeFirst :: "string \<Rightarrow> string" where
  "capitalizeFirst s = (case s of [] \<Rightarrow> [] | c # cs \<Rightarrow> toUpperChar c # cs)"

definition lastIndexOfSpace :: "string \<Rightarrow> int" where
  "lastIndexOfSpace s =
     (if CHR '' '' \<in> set s
      then int (length s) - 1 - int (length (takeWhile (\<lambda>c. c \<noteq> CHR '' '') (rev s)))
      else - 1)"

definition firstSentenceOf :: "string \<Rightarrow> string" where
  "firstSentenceOf s = takeWhile notSentenceEnd s"

fun includesStr :: "string \<Rightarrow> string \<Rightarrow> bool" where
  "includesStr [] p = (p = [])"
| "includesStr (c # cs) p = (if take (length p) (c # cs) = p then True else includesStr cs p)"

fun joinWith :: "string \<Rightarrow> string list \<Rightarrow> string" where
  "joinWith sep [] = []"
| "joinWith sep [x] = x"
| "joinWith sep (x # y # rest) = x @ sep @ joinWith sep (y # rest)"

text \<open>The truncation at a word boundary that the source writes out three times.\<close>

definition truncateAtWord :: "string \<Rightarrow> string" where
  "truncateAtWord s =
     (let truncated = take 97 s;
          lastSpace = lastIndexOfSpace truncated
      in if lastSpace > 50 then take (nat lastSpace) truncated else truncated)"

definition actionVerbs :: "string list" where
  "actionVerbs =
     [''announces'', ''announced'', ''approves'', ''approved'', ''rejects'', ''rejected'',
      ''proposes'', ''proposed'', ''implements'', ''implemented'', ''introduces'', ''introduced'',
      ''launches'', ''launched'', ''reveals'', ''revealed'', ''confirms'', ''confirmed'',
      ''denies'', ''denied'', ''reports'', ''reported'']"

definition eventNouns :: "string list" where
  "eventNouns =
     [''protest'', ''protests'', ''protesting'', ''strike'', ''strikes'', ''striking'',
      ''election'', ''elections'', ''meeting'', ''meetings'', ''decision'', ''decisions'',
      ''policy'', ''policies'', ''law'', ''laws'', ''bill'', ''bills'', ''plan'', ''plans'']"

definition happeningVerbs :: "string list" where
  "happeningVerbs =
     [''breaks'', ''breaking'', ''happens'', ''happened'', ''occurs'', ''occurred'',
      ''develops'', ''developed'', ''emerges'', ''emerged'']"

definition actionPatterns :: "atom list list" where
  "actionPatterns =
     [[Cls isLetter, Rep 0 (Some 50) notSentenceEnd, Lits actionVerbs, Rep 0 (Some 50) notSentenceEnd],
      [Cls isLetter, Rep 0 (Some 50) notSentenceEnd, Lits eventNouns, Rep 0 (Some 40) notSentenceEnd],
      [Cls isLetter, Rep 0 (Some 50) notSentenceEnd, Lits happeningVerbs, Rep 0 (Some 40) notSentenceEnd]]"

definition leadInPhrases :: "string list" where
  "leadInPhrases =
     [''This story'', ''The story'', ''This article'', ''The article'', ''According to'',
      ''Reports indicate'', ''Sources say'', ''Multiple sources'']"

definition leadInWords :: "string list" where
  "leadInWords = leadInPhrases @ [''The news'', ''A story'', ''In'', ''On'', ''At'', ''The'', ''A'', ''An'']"

definition relativeWords :: "string list" where
  "relativeWords = [''that'', ''which'', ''who'', ''where'', ''when'', ''what'', ''how'']"

definition breakingPattern :: "atom list" where
  "breakingPattern =
     [Lits [''BREAKING'', ''EXCLUSIVE'', ''UPDATE'', ''LIVE''], Lits ['':''], Rep 0 None isSpace]"

definition sourceSuffixPattern :: "atom list" where
  "sourceSuffixPattern =
     [Rep 0 None isSpace, Lits [''-''], Rep 0 None isSpace,
      Lits [''The Guardian'', ''Guardian'', ''GDELT'', ''Currents'', ''Reuters'', ''AP'', ''BBC''],
      Rep 0 None notLineEnd, Eos]"

text \<open>Strategy 1: a clause around an action verb. The result is \<open>Some\<close> title when the
  strategy returns, \<open>None\<close> when control falls through to the next strategy.\<close>

definition strategy1 :: "string \<Rightarrow> string option" where
  "strategy1 summary =
     firstSome
       (\<lambda>pattern.
          case matchText pattern summary of
            None \<Rightarrow> None
          | Some m \<Rightarrow>
              if m = [] then None
              else
                (let phrase = trim (replaceStart [Lits leadInPhrases] (trim m))
                 in if length phrase \<ge> 20 \<and> length phrase \<le> 100
                    then (let phrase = capitalizeFirst phrase
                          in Some (if length phrase > 100 then truncateAtWord phrase else phrase))
                    else None))
       actionPatterns"

text \<open>Strategy 2: the first sentence, without lead-in words.\<close>

definition strategy2 :: "string \<Rightarrow> string option" where
  "strategy2 summary =
     (let firstSentence = trim (firstSentenceOf summary)
      in if length firstSentence > 15 then
           (let neutral = trim (replaceStart [Lits relativeWords, Rep 1 None isSpace]
                                 (replaceStart [Lits leadInWords, Rep 1 None isSpace] firstSentence));
                neutral = (if length neutral > 0 then capitalizeFirst neutral else neutral);
                wordCount = length (splitWs neutral)
            in if wordCount \<ge> 3 \<and> wordCount \<le> 15 \<and> length neutral \<ge> 20 \<and> length neutral \<le> 100
               then Some neutral
               else if length neutral > 100 then
                 (let neutral = truncateAtWord neutral
                  in if length neutral \<ge> 20 then Some neutral else None)
               else None)
         else None)"

text \<open>Strategy 3: the first 80 characters, cut at a word boundary.\<close>

definition strategy3 :: "string \<Rightarrow> string option" where
  "strategy3 summary =
     (if length summary > 20 then
        (let chunk = trim (take 80 summary);
             lastSpace = lastIndexOfSpace chunk;
             chunk = (if lastSpace > 30 then take (nat lastSpace) chunk else chunk);
             chunk = trim (replaceStart [Lits leadInWords, Rep 1 None isSpace] chunk)
         in if length chunk \<ge> 20 then Some (capitalizeFirst chunk) else None)
      else None)"

text \<open>Strategy 4: the first 70 characters.\<close>

definition strategy4 :: "string \<Rightarrow> string option" where
  "strategy4 summary =
     (let finalFallback = trim (take 70 summary);
          lastSpace = lastIndexOfSpace finalFallback;
          finalFallback = (if lastSpace > 20 then take (nat lastSpace) finalFallback
                           else finalFallback);
          finalFallback = trim (replaceStart [Lits leadInPhrases] finalFallback)
      in if length finalFallback \<ge> 15 then Some (capitalizeFirst finalFallback) else None)"

text \<open>The block \<^verbatim>\<open>if (title) { ... }\<close>\<close>

definition titleFromTitle :: "string \<Rightarrow> string option" where
  "titleFromTitle ttl =
     (if ttl \<noteq> [] then
        (let neutral = trim (replaceFirst sourceSuffixPattern (replaceStart breakingPattern ttl))
         in if length neutral \<ge> 15 \<and> length neutral \<le> 100 then Some neutral
            else
              (let neutral = (if length neutral > 100 then truncateAtWord neutral else neutral)
               in if length neutral \<ge> 15 then Some neutral else None))
      else None)"

text \<open>The block \<^verbatim>\<open>if (description && description.length > 20) { ... }\<close>\<close>

definition titleFromDescription :: "string \<Rightarrow> string option" where
  "titleFromDescription descr =
     (if length descr > 20 then
        (let firstSentence = trim (firstSentenceOf descr)
         in if length firstSentence \<ge> 15 \<and> length firstSentence \<le> 100
            then Some (capitalizeFirst firstSentence) else None)
      else None)"

text \<open>The block \<^verbatim>\<open>if (summary && summary.length > 0) { ... }\<close>, which always returns.\<close>

definition titleFromSummaryChunk :: "string \<Rightarrow> string option" where
  "titleFromSummaryChunk summary =
     (if length summary > 0 then
        (let chunk = trim (take 60 summary);
             lastSpace = lastIndexOfSpace chunk
         in if lastSpace > 15 then Some (capitalizeFirst (take (nat lastSpace) chunk))
            else Some (capitalizeFirst chunk))
      else None)"

definition generateNeutralTitle :: "string \<Rightarrow> string \<Rightarrow> string \<Rightarrow> string" where
  "generateNeutralTitle ttl descr summary =
     (case (if length summary > 10
            then firstSome (\<lambda>strategy. strategy summary) [strategy1, strategy2, strategy3, strategy4]
            else None) of
        Some t \<Rightarrow> t
      | None \<Rightarrow>
          (case titleFromTitle ttl of
             Some t \<Rightarrow> t
           | None \<Rightarrow>
               (case titleFromDescription descr of
                  Some t \<Rightarrow> t
                | None \<Rightarrow>
                    (case titleFromSummaryChunk summary of
                       Some t \<Rightarrow> t
                     | None \<Rightarrow>
                         if ttl \<noteq> [] then trim (take 80 ttl)
                         else ''Story from multiple sources''))))"

text \<open>The check of a title against the generic patterns, as in \<^verbatim>\<open>summarizeArticleGroup\<close>
  and in the route: \<open>matchesGenericPattern\<close> is the pattern part of \<^verbatim>\<open>isGeneric\<close>.\<close>

definition genericPatterns :: "string list" where
  "genericPatterns =
     [''news story'', ''story 1'', ''story 2'', ''story 3'', ''latest news'', ''news coverage'',
      ''story from'']"

definition storyNumberPattern :: "atom list" where
  "storyNumberPattern = [Lits [''story''], Rep 1 None isSpace, Rep 1 None isDigit, Eos]"

definition matchesGenericPattern :: "string \<Rightarrow> bool" where
  "matchesGenericPattern t =
     (list_ex (\<lambda>pattern. includesStr (toLowerCase t) pattern) genericPatterns
      \<or> testAnchored storyNumberPattern t)"

definition isGeneric :: "string \<Rightarrow> bool" where
  "isGeneric t = (t = [] \<or> matchesGenericPattern t \<or> length t < 10)"

section \<open>Summaries (llmSummarizer.js)\<close>

text \<open>
  The result of \<^verbatim>\<open>summarizeArticleGroup\<close>; the fields \<^verbatim>\<open>groupId\<close> and \<^verbatim>\<open>summary\<close> are
  \<open>summaryGroupId\<close> and \<open>summaryText\<close>. The call of the text-generation service is outside
  the program: whether a key is configured and what the call gives are parameters, the
  latter \<open>Some\<close> parsed object or \<open>None\<close> when the request fails or its content does not
  parse. A missing string property of the parsed object is the empty string. The outer
  \<^verbatim>\<open>catch\<close> of the function is reached only when a property access on an ill-typed
  article throws, which the typed articles here rule out.
\<close>

record groupSummary =
  summaryGroupId :: string
  groupTitle :: string
  summaryText :: string
  detailedComparison :: string
  simpleComparison :: string
  differences :: "string list"

record llmParsed =
  parsedGroupTitle :: string
  parsedSummary :: string
  parsedDetailedComparison :: string
  parsedSimpleComparison :: string
  parsedDifferences :: "string list option"

definition sourceDisplayName :: "string \<Rightarrow> string" where
  "sourceDisplayName s =
     (if s = ''guardian'' then ''The Guardian''
      else if s = ''gdelt'' then ''GDELT''
      else if s = ''currents'' then ''Currents''
      else s)"

definition firstTitle :: "article list \<Rightarrow> string" where
  "firstTitle arts = (case arts of [] \<Rightarrow> [] | a # rest \<Rightarrow> title a)"

definition firstDescription :: "article list \<Rightarrow> string" where
  "firstDescription arts = (case arts of [] \<Rightarrow> [] | a # rest \<Rightarrow> description a)"

definition generateBasicSummary :: "string \<Rightarrow> article list \<Rightarrow> groupSummary" where
  "generateBasicSummary gid arts =
     (let sources = uniqueInOrder (map source arts);
          sourceNames = map sourceDisplayName sources;
          titles = joinWith ''; '' (map title arts);
          descriptions = joinWith '' '' (take 2 (filter (\<lambda>d. d \<noteq> []) (map description arts)));
          detailed = ''This story was covered by '' @ joinWith '', '' sourceNames @ ''. ''
            @ (if length sources = 2 then ''Each source provides its own perspective on the events.''
               else ''Each source offers a different angle on the story.'');
          simple = (if length sources = 2
                    then sourceNames ! 0 @ '' and '' @ sourceNames ! 1
                           @ '' cover this story with different perspectives.''
                    else ''Covered by '' @ joinWith '', '' sourceNames @ '' with varying perspectives.'');
          summ = orString [Some descriptions, Some titles] ''Multiple sources covered this story.''
      in \<lparr>summaryGroupId = gid,
          groupTitle = generateNeutralTitle (firstTitle arts) (firstDescription arts) summ,
          summaryText = summ,
          detailedComparison = detailed,
          simpleComparison = simple,
          differences =
            map (\<lambda>src. let sourceArticles = filter (\<lambda>a. source a = src) arts
                        in src @ '': '' @ showNat (length sourceArticles) @ '' article(s) - ''
                             @ title (sourceArticles ! 0))
                sources\<rparr>)"

definition summarizeArticleGroup ::
  "bool \<Rightarrow> llmParsed option \<Rightarrow> string \<Rightarrow> article list option \<Rightarrow> groupSummary" where
  "summarizeArticleGroup apiKeyConfigured llmResponse gid groupArticles =
     (case (case groupArticles of None \<Rightarrow> [] | Some arts \<Rightarrow> arts) of
        [] \<Rightarrow>
          \<lparr>summaryGroupId = gid,
           groupTitle = ''News Story'',
           summaryText = ''No articles to summarize.'',
           detailedComparison = ''No articles available for comparison.'',
           simpleComparison = ''No articles available for comparison.'',
           differences = []\<rparr>
      | [article] \<Rightarrow>
          (let summ = orString [Some (description article)] (title article)
           in \<lparr>summaryGroupId = gid,
               groupTitle = generateNeutralTitle (title article) (description article) summ,
               summaryText = summ,
               detailedComparison = ''Only covered by '' @ source article @ ''.'',
               simpleComparison = ''Only covered by '' @ source article @ ''.'',
               differences = [''Only covered by '' @ source article @ ''.'']\<rparr>)
      | arts \<Rightarrow>
          if \<not> apiKeyConfigured then generateBasicSummary gid arts
          else
            (case llmResponse of
               None \<Rightarrow> generateBasicSummary gid arts
             | Some parsed \<Rightarrow>
                 (let summ = orString [Some (parsedSummary parsed)] ''Summary not available.'';
                      ttl = (if isGeneric (parsedGroupTitle parsed)
                             then generateNeutralTitle (firstTitle arts) (firstDescription arts) summ
                             else parsedGroupTitle parsed)
                  in \<lparr>summaryGroupId = gid,
                      groupTitle = ttl,
                      summaryText = summ,
                      detailedComparison =
                        orString [Some (parsedDetailedComparison parsed),
                                  map_option (joinWith '' '') (parsedDifferences parsed)]
                          ''Comparison not available.'',
                      simpleComparison =
                        orString [Some (parsedSimpleComparison parsed),
                                  (case parsedDifferences parsed of
                                     None \<Rightarrow> None
                                   | Some ds \<Rightarrow> (case ds of [] \<Rightarrow> None | d # rest \<Rightarrow> Some d))]
                          ''Articles differ in their focus and emphasis.'',
                      differences =
                        (case parsedDifferences parsed of None \<Rightarrow> [] | Some ds \<Rightarrow> ds)\<rparr>)))"

text \<open>A text is an excerpt of another when, letter case apart, it is a contiguous piece
  of it.\<close>

definition excerptOf :: "string \<Rightarrow> string \<Rightarrow> bool" where
  "excerptOf t s = sublist (toLowerCase t) (toLowerCase s)"

section \<open>Properties of the similarity score\<close>

lemma jaccardSimilarity_bounds: "0 \<le> jaccardSimilarity A B \<and> jaccardSimilarity A B \<le> 1"
proof (cases "finite (A \<union> B)")
  case True
  then have "card (A \<inter> B) \<le> card (A \<union> B)"
    by (intro card_mono) auto
  then show ?thesis
    by (auto simp: jaccardSimilarity_def divide_le_eq_1)
next
  case False
  then show ?thesis
    by (simp add: jaccardSimilarity_def)
qed

lemma jaccardSimilarity_self: "jaccardSimilarity A A = 1"
  by (simp add: jaccardSimilarity_def)

lemma timeBonus_nonneg: "0 \<le> timeBonus parseDate a b"
  by (simp add: timeBonus_def Let_def split: option.splits)

lemma urlBonus_nonneg: "0 \<le> urlBonus hostname a b"
  by (simp add: urlBonus_def split: option.splits)

text \<open>
  C5. For every pair of articles the score is \<open>min 1 (Jaccard + time bonus + domain bonus)\<close>
  and lies between 0 and 1, and the score of an article with itself is 1. The latter
  holds for every article, so in particular for one with a non-empty title or
  description.
\<close>

theorem calculateSimilarity_bounds:
  "calculateSimilarity parseDate hostname a b =
     min 1 (jaccardSimilarity (set (extractKeyTerms (title a @ '' '' @ description a) 10))
                              (set (extractKeyTerms (title b @ '' '' @ description b) 10))
            + timeBonus parseDate a b + urlBonus hostname a b)
   \<and> 0 \<le> calculateSimilarity parseDate hostname a b
   \<and> calculateSimilarity parseDate hostname a b \<le> 1
   \<and> calculateSimilarity parseDate hostname a a = 1"
proof -
  let ?J = "jaccardSimilarity (set (extractKeyTerms (title a @ '' '' @ description a) 10))
                              (set (extractKeyTerms (title b @ '' '' @ description b) 10))"
  have eq: "calculateSimilarity parseDate hostname a b
              = min 1 (?J + timeBonus parseDate a b + urlBonus hostname a b)"
    by (simp add: calculateSimilarity_def Let_def)
  have "0 \<le> ?J"
    using jaccardSimilarity_bounds by blast
  then have lo: "0 \<le> calculateSimilarity parseDate hostname a b"
    using timeBonus_nonneg [of parseDate a b] urlBonus_nonneg [of hostname a b]
    unfolding eq by simp
  have hi: "calculateSimilarity parseDate hostname a b \<le> 1"
    unfolding eq by simp
  have self: "calculateSimilarity parseDate hostname a a = 1"
    using timeBonus_nonneg [of parseDate a a] urlBonus_nonneg [of hostname a a]
    by (simp add: calculateSimilarity_def Let_def jaccardSimilarity_self)
  from eq lo hi self show ?thesis
    by blast
qed

section \<open>Properties of the clustering\<close>

lemma findBestGroup_index:
  "fst (findBestGroup sim thr a gs j best) = Some b \<Longrightarrow>
     fst best = Some b \<or> (j \<le> b \<and> b < j + length gs)"
proof (induction gs arbitrary: j best)
  case Nil
  then show ?case by simp
next
  case (Cons g gs)
  obtain bg bs where best: "best = (bg, bs)" by (cases best)
  from Cons.prems Cons.IH show ?case
    unfolding best by (fastforce simp: Let_def split: if_splits)
qed

lemma findBestGroup_in_range:
  "fst (findBestGroup sim thr a gs 0 (None, 0)) = Some b \<Longrightarrow> b < length gs"
  using findBestGroup_index [of sim thr a gs 0 "(None, 0)" b] by simp

lemma mset_concat_articles_update:
  assumes "b < length gs"
  shows "mset (concat (map articles (gs[b := (gs ! b)\<lparr>articles := articles (gs ! b) @ [x]\<rparr>])))
           = mset (concat (map articles gs)) + {#x#}"
proof -
  have upd: "gs[b := (gs ! b)\<lparr>articles := articles (gs ! b) @ [x]\<rparr>]
               = take b gs @ (gs ! b)\<lparr>articles := articles (gs ! b) @ [x]\<rparr> # drop (Suc b) gs"
    using assms by (rule upd_conv_take_nth_drop)
  have orig: "gs = take b gs @ gs ! b # drop (Suc b) gs"
    using assms by (rule id_take_nth_drop)
  have "mset (concat (map articles gs))
          = mset (concat (map articles (take b gs @ gs ! b # drop (Suc b) gs)))"
    using orig by simp
  then show ?thesis
    unfolding upd by simp
qed

lemma groupStep_fresh:
  assumes "i \<notin> used"
  shows "mset (concat (map articles (fst (groupStep sim thr arts i (gs, used)))))
           = mset (concat (map articles gs)) + {#arts ! i#}
         \<and> snd (groupStep sim thr arts i (gs, used)) = insert i used"
proof (cases "fst (findBestGroup sim thr (arts ! i) gs 0 (None, 0))")
  case None
  with assms show ?thesis
    by (simp add: groupStep_def Let_def)
next
  case (Some b)
  then have "b < length gs"
    by (rule findBestGroup_in_range)
  with assms Some show ?thesis
    by (simp add: groupStep_def Let_def mset_concat_articles_update)
qed

lemma groupLoop_Suc:
  "groupLoop sim thr arts (Suc n) = groupStep sim thr arts n (groupLoop sim thr arts n)"
  by (simp add: groupLoop_def)

lemma groupLoop_invariant:
  "n \<le> length arts \<Longrightarrow>
     mset (concat (map articles (fst (groupLoop sim thr arts n)))) = mset (take n arts)
     \<and> snd (groupLoop sim thr arts n) = {0..<n}"
proof (induction n)
  case 0
  then show ?case by (simp add: groupLoop_def)
next
  case (Suc n)
  obtain gs used where st: "groupLoop sim thr arts n = (gs, used)"
    by (cases "groupLoop sim thr arts n")
  from Suc st have ih: "mset (concat (map articles gs)) = mset (take n arts)" "used = {0..<n}"
    by simp_all
  from ih have fresh: "n \<notin> used" by simp
  from Suc.prems have tk: "take (Suc n) arts = take n arts @ [arts ! n]"
    by (simp add: take_Suc_conv_app_nth)
  from groupStep_fresh [OF fresh, of sim thr arts gs] ih show ?case
    unfolding groupLoop_Suc st tk by (auto simp: atLeast0_lessThan_Suc)
qed

lemma mset_concat_map_cong:
  assumes "mset xs = mset ys"
  shows "mset (concat (map f xs)) = mset (concat (map f ys))"
proof -
  have "mset (concat (map f zs)) = sum_mset (image_mset (\<lambda>z. mset (f z)) (mset zs))" for zs
    by (induction zs) simp_all
  with assms show ?thesis
    by simp
qed


lemma groupLoop_count: "length (fst (groupLoop sim thr arts n)) \<le> n"
proof (induction n)
  case 0
  then show ?case by (simp add: groupLoop_def)
next
  case (Suc n)
  obtain gs used where st: "groupLoop sim thr arts n = (gs, used)"
    by (cases "groupLoop sim thr arts n")
  have "length (fst (groupStep sim thr arts n (gs, used))) \<le> Suc (length gs)"
    by (simp add: groupStep_def Let_def split: option.splits)
  with Suc st show ?case
    unfolding groupLoop_Suc by simp
qed


lemma in_set_updateD: "g \<in> set (gs[b := x]) \<Longrightarrow> g = x \<or> g \<in> set gs"
  using set_update_subset_insert [of gs b x] by blast

lemma groupStep_nonempty:
  assumes "\<forall>g \<in> set gs. articles g \<noteq> []"
  shows "\<forall>g \<in> set (fst (groupStep sim thr arts i (gs, used))). articles g \<noteq> []"
proof (cases "i \<in> used")
  case True
  with assms show ?thesis by (simp add: groupStep_def)
next
  case False
  show ?thesis
  proof (cases "fst (findBestGroup sim thr (arts ! i) gs 0 (None, 0))")
    case None
    with False assms show ?thesis
      by (simp add: groupStep_def Let_def)
  next
    case (Some b)
    let ?x = "(gs ! b)\<lparr>articles := articles (gs ! b) @ [arts ! i]\<rparr>"
    have step: "fst (groupStep sim thr arts i (gs, used)) = gs[b := ?x]"
      using False Some by (simp add: groupStep_def Let_def)
    have "articles g \<noteq> []" if "g \<in> set (gs[b := ?x])" for g
    proof -
      from that have "g = ?x \<or> g \<in> set gs"
        by (rule in_set_updateD)
      then show ?thesis
      proof
        assume "g = ?x"
        then show ?thesis by simp
      next
        assume "g \<in> set gs"
        with assms show ?thesis by blast
      qed
    qed
    then show ?thesis
      unfolding step by blast
  qed
qed

lemma groupLoop_nonempty:
  "\<forall>g \<in> set (fst (groupLoop sim thr arts n)). articles g \<noteq> []"
proof (induction n)
  case 0
  then show ?case by (simp add: groupLoop_def)
next
  case (Suc n)
  obtain gs used where st: "groupLoop sim thr arts n = (gs, used)"
    by (cases "groupLoop sim thr arts n")
  from Suc st have "\<forall>g \<in> set gs. articles g \<noteq> []"
    by simp
  then show ?case
    unfolding groupLoop_Suc st by (rule groupStep_nonempty)
qed

text \<open>
  C1. Clustering partition: for every input list, the articles of the output groups,
  taken together, are exactly the articles of the input, each as often as it occurs
  there (none dropped, none duplicated), and the group sizes add up to the length of
  the input.
\<close>

theorem groupSimilarArticles_partition:
  "mset (concat (map articles (groupSimilarArticles parseDate hostname arts similarityThreshold)))
     = mset arts
   \<and> sum_list (map (\<lambda>g. length (articles g))
        (groupSimilarArticles parseDate hostname arts similarityThreshold)) = length arts"
proof -
  let ?gs = "groupSimilarArticles parseDate hostname arts similarityThreshold"
  have part: "mset (concat (map articles ?gs)) = mset arts"
  proof (cases "arts = []")
    case True
    then show ?thesis by (simp add: groupSimilarArticles_def)
  next
    case False
    let ?loop = "fst (groupLoop (calculateSimilarity parseDate hostname) similarityThreshold
                        arts (length arts))"
    have "mset (concat (map articles ?gs)) = mset (concat (map articles ?loop))"
      using False mset_concat_map_cong [OF mset_sort, of articles _ ?loop]
      by (simp add: groupSimilarArticles_def)
    also have "\<dots> = mset arts"
      using groupLoop_invariant [of "length arts" arts] by simp
    finally show ?thesis .
  qed
  have "length (concat (map articles ?gs)) = length arts"
    using arg_cong [OF part, of size] by simp
  then have "sum_list (map (\<lambda>g. length (articles g)) ?gs) = length arts"
    by (simp add: length_concat comp_def)
  with part show ?thesis
    by blast
qed


section \<open>The choice of the best group\<close>

text \<open>What the inner loop returns, for a start index \<open>j\<close> and a start state: the best
  similarity never decreases, it bounds every similarity at or above the threshold, and a
  change of the best group happens at the first group that reaches the final value.\<close>

lemma findBestGroup_spec:
  assumes "findBestGroup sim thr a gs j (bg, bs) = (bg', bs')"
  shows "bs \<le> bs'
       \<and> (\<forall>k < length gs. thr \<le> sim a (hd (articles (gs ! k))) \<longrightarrow> sim a (hd (articles (gs ! k))) \<le> bs')
       \<and> ((bg' = bg \<and> bs' = bs) \<or>
          (\<exists>b < length gs. bg' = Some (j + b) \<and> sim a (hd (articles (gs ! b))) = bs' \<and> thr \<le> bs' \<and> bs < bs'
             \<and> (\<forall>k < b. sim a (hd (articles (gs ! k))) < bs')))"
  using assms
proof (induction gs arbitrary: j bg bs)
  case Nil
  then show ?case by simp
next
  case (Cons g gs)
  let ?s = "sim a (hd (articles g))"
  show ?case
  proof (cases "thr \<le> ?s \<and> bs < ?s")
    case True
    with Cons.prems have run: "findBestGroup sim thr a gs (Suc j) (Some j, ?s) = (bg', bs')"
      by (simp add: Let_def)
    note ih = Cons.IH [OF run]
    from ih True have le: "bs \<le> bs'" and sle: "?s \<le> bs'" by auto
    have all: "\<forall>k < length (g # gs). thr \<le> sim a (hd (articles ((g # gs) ! k)))
                 \<longrightarrow> sim a (hd (articles ((g # gs) ! k))) \<le> bs'"
      using ih sle by (auto simp: nth_Cons split: nat.splits)
    from ih have "(bg' = Some j \<and> bs' = ?s) \<or>
          (\<exists>b < length gs. bg' = Some (Suc j + b) \<and> sim a (hd (articles (gs ! b))) = bs' \<and> thr \<le> bs' \<and> ?s < bs'
             \<and> (\<forall>k < b. sim a (hd (articles (gs ! k))) < bs'))"
      by blast
    then have "\<exists>b < length (g # gs). bg' = Some (j + b) \<and> sim a (hd (articles ((g # gs) ! b))) = bs'
                 \<and> thr \<le> bs' \<and> bs < bs' \<and> (\<forall>k < b. sim a (hd (articles ((g # gs) ! k))) < bs')"
    proof
      assume "bg' = Some j \<and> bs' = ?s"
      with True show ?thesis
        by (intro exI [of _ 0]) simp
    next
      assume "\<exists>b < length gs. bg' = Some (Suc j + b) \<and> sim a (hd (articles (gs ! b))) = bs' \<and> thr \<le> bs' \<and> ?s < bs'
             \<and> (\<forall>k < b. sim a (hd (articles (gs ! k))) < bs')"
      then obtain b where b: "b < length gs" "bg' = Some (Suc j + b)"
           "sim a (hd (articles (gs ! b))) = bs'" "thr \<le> bs'" "?s < bs'"
           "\<forall>k < b. sim a (hd (articles (gs ! k))) < bs'"
        by blast
      have "\<forall>k < Suc b. sim a (hd (articles ((g # gs) ! k))) < bs'"
        using b by (auto simp: nth_Cons split: nat.splits)
      with b True show ?thesis
        by (intro exI [of _ "Suc b"]) simp
    qed
    with le all show ?thesis by blast
  next
    case False
    with Cons.prems have run: "findBestGroup sim thr a gs (Suc j) (bg, bs) = (bg', bs')"
      by (auto simp: Let_def)
    note ih = Cons.IH [OF run]
    from ih have le: "bs \<le> bs'" by blast
    from False le have sle: "thr \<le> ?s \<longrightarrow> ?s \<le> bs'" by auto
    have all: "\<forall>k < length (g # gs). thr \<le> sim a (hd (articles ((g # gs) ! k)))
                 \<longrightarrow> sim a (hd (articles ((g # gs) ! k))) \<le> bs'"
      using ih sle by (auto simp: nth_Cons split: nat.splits)
    from ih have "(bg' = bg \<and> bs' = bs) \<or>
          (\<exists>b < length gs. bg' = Some (Suc j + b) \<and> sim a (hd (articles (gs ! b))) = bs' \<and> thr \<le> bs' \<and> bs < bs'
             \<and> (\<forall>k < b. sim a (hd (articles (gs ! k))) < bs'))"
      by blast
    then have "(bg' = bg \<and> bs' = bs) \<or> (\<exists>b < length (g # gs). bg' = Some (j + b) \<and> sim a (hd (articles ((g # gs) ! b))) = bs'
                 \<and> thr \<le> bs' \<and> bs < bs' \<and> (\<forall>k < b. sim a (hd (articles ((g # gs) ! k))) < bs'))"
    proof
      assume "bg' = bg \<and> bs' = bs"
      then show ?thesis by blast
    next
      assume "\<exists>b < length gs. bg' = Some (Suc j + b) \<and> sim a (hd (articles (gs ! b))) = bs' \<and> thr \<le> bs' \<and> bs < bs'
             \<and> (\<forall>k < b. sim a (hd (articles (gs ! k))) < bs')"
      then obtain b where b: "b < length gs" "bg' = Some (Suc j + b)"
           "sim a (hd (articles (gs ! b))) = bs'" "thr \<le> bs'" "bs < bs'"
           "\<forall>k < b. sim a (hd (articles (gs ! k))) < bs'"
        by blast
      from False b have "?s < bs'"
        by (cases "thr \<le> ?s") auto
      with b have "\<forall>k < Suc b. sim a (hd (articles ((g # gs) ! k))) < bs'"
        by (auto simp: nth_Cons split: nat.splits)
      with b show ?thesis
        by (intro disjI2 exI [of _ "Suc b"]) simp
    qed
    with le all show ?thesis by blast
  qed
qed

lemma findBestGroup_Some:
  assumes "fst (findBestGroup sim thr a gs 0 (None, 0)) = Some b"
  shows "b < length gs \<and> thr \<le> sim a (hd (articles (gs ! b))) \<and> 0 < sim a (hd (articles (gs ! b)))
       \<and> (\<forall>k < length gs. sim a (hd (articles (gs ! k))) \<le> sim a (hd (articles (gs ! b))))
       \<and> (\<forall>k < b. sim a (hd (articles (gs ! k))) < sim a (hd (articles (gs ! b))))"
proof -
  obtain bg' bs' where run: "findBestGroup sim thr a gs 0 (None, 0) = (bg', bs')"
    by (cases "findBestGroup sim thr a gs 0 (None, 0)")
  with assms have bg': "bg' = Some b" by simp
  from findBestGroup_spec [OF run] bg'
  obtain c where c: "c < length gs" "Some b = Some (0 + c)" "sim a (hd (articles (gs ! c))) = bs'"
      "thr \<le> bs'" "0 < bs'" "\<forall>k < c. sim a (hd (articles (gs ! k))) < bs'"
    by auto
  from findBestGroup_spec [OF run]
  have all: "\<forall>k < length gs. thr \<le> sim a (hd (articles (gs ! k))) \<longrightarrow> sim a (hd (articles (gs ! k))) \<le> bs'"
    by blast
  have "sim a (hd (articles (gs ! k))) \<le> bs'" if "k < length gs" for k
  proof (cases "thr \<le> sim a (hd (articles (gs ! k)))")
    case True
    with all that show ?thesis by blast
  next
    case False
    with c show ?thesis by simp
  qed
  with c show ?thesis by simp
qed

lemma findBestGroup_None:
  assumes "fst (findBestGroup sim thr a gs 0 (None, 0)) = None" "k < length gs"
    "thr \<le> sim a (hd (articles (gs ! k)))"
  shows "sim a (hd (articles (gs ! k))) \<le> 0"
proof -
  obtain bg' bs' where run: "findBestGroup sim thr a gs 0 (None, 0) = (bg', bs')"
    by (cases "findBestGroup sim thr a gs 0 (None, 0)")
  with assms have "bg' = None" by simp
  with findBestGroup_spec [OF run] have "bs' = 0" by auto
  with findBestGroup_spec [OF run] assms show ?thesis by auto
qed

lemma findBestGroup_exists:
  assumes "k < length gs" "thr \<le> sim a (hd (articles (gs ! k)))" "0 < sim a (hd (articles (gs ! k)))"
  shows "\<exists>b. fst (findBestGroup sim thr a gs 0 (None, 0)) = Some b"
proof (cases "fst (findBestGroup sim thr a gs 0 (None, 0))")
  case None
  from findBestGroup_None [OF None assms(1,2)] assms(3) show ?thesis by simp
next
  case (Some b)
  then show ?thesis by blast
qed

lemma groupStep_length_cases:
  "length (fst (groupStep sim thr arts i (gs, used)))
     = (if i \<in> used then length gs
        else case fst (findBestGroup sim thr (arts ! i) gs 0 (None, 0)) of
               Some b \<Rightarrow> length gs | None \<Rightarrow> Suc (length gs))"
  by (simp add: groupStep_def Let_def split: option.splits)

lemma groupStep_threshold_mono:
  assumes "t1 \<le> t2"
  shows "length (fst (groupStep sim t1 arts i (gs, used)))
           \<le> length (fst (groupStep sim t2 arts i (gs, used)))"
proof (cases "fst (findBestGroup sim t2 (arts ! i) gs 0 (None, 0))")
  case None
  then show ?thesis
    by (simp add: groupStep_length_cases split: option.splits)
next
  case (Some b)
  from findBestGroup_Some [OF Some] assms
  have "b < length gs" "t1 \<le> sim (arts ! i) (hd (articles (gs ! b)))"
       "0 < sim (arts ! i) (hd (articles (gs ! b)))"
    by auto
  then obtain c where "fst (findBestGroup sim t1 (arts ! i) gs 0 (None, 0)) = Some c"
    using findBestGroup_exists [of b gs t1 sim "arts ! i"] by blast
  with Some show ?thesis
    by (simp add: groupStep_length_cases)
qed

lemma findBestGroup_above_one:
  assumes "\<forall>x y. sim x y \<le> 1" "1 < thr"
  shows "fst (findBestGroup sim thr a gs 0 (None, 0)) = None"
proof (cases "fst (findBestGroup sim thr a gs 0 (None, 0))")
  case None
  then show ?thesis .
next
  case (Some b)
  from findBestGroup_Some [OF Some] have "thr \<le> sim a (hd (articles (gs ! b)))"
    by blast
  moreover from assms(1) have "sim a (hd (articles (gs ! b))) \<le> 1"
    by blast
  ultimately show ?thesis
    using assms(2) by simp
qed

lemma groupLoop_above_one:
  assumes "\<forall>x y. sim x y \<le> 1" "1 < thr" "n \<le> length arts"
  shows "length (fst (groupLoop sim thr arts n)) = n"
  using assms(3)
proof (induction n)
  case 0
  then show ?case by (simp add: groupLoop_def)
next
  case (Suc n)
  obtain gs used where st: "groupLoop sim thr arts n = (gs, used)"
    by (cases "groupLoop sim thr arts n")
  from Suc st have len: "length gs = n" by simp
  from groupLoop_invariant [of n arts sim thr] Suc.prems st have "n \<notin> used" by simp
  with len findBestGroup_above_one [OF assms(1,2), where a = "arts ! n" and gs = gs] show ?case
    unfolding groupLoop_Suc st by (simp add: groupStep_length_cases)
qed

lemma groupSimilarArticles_length:
  "length (groupSimilarArticles parseDate hostname arts thr)
     = length (fst (groupLoop (calculateSimilarity parseDate hostname) thr arts (length arts)))"
  by (simp add: groupSimilarArticles_def groupLoop_def)

text \<open>
  C2, as stated, fails: on the four articles of \<open>thresholdPool\<close>, in this order, the
  threshold 0.3 gives three groups and the higher threshold 0.4 gives two. At 0.3 the
  second article joins the first (similarity 1/3) and the last two, which resemble only
  the second (1/2) and not the first (1/5), each start a group; at 0.4 the second article
  starts its own group and the last two join it.
\<close>

theorem threshold_monotonicity_counterexample:
  "map (\<lambda>g. map title (articles g)) (groupSimilarArticles (\<lambda>_. None) (\<lambda>_. None) thresholdPool 0.3)
     = [[''papa romeo uniform victor'', ''papa quebec romeo sierra''], [''papa quebec''], [''romeo sierra'']]
   \<and> map (\<lambda>g. map title (articles g)) (groupSimilarArticles (\<lambda>_. None) (\<lambda>_. None) thresholdPool 0.4)
     = [[''papa quebec romeo sierra'', ''papa quebec'', ''romeo sierra''], [''papa romeo uniform victor'']]"
  by code_simp

text \<open>
  C2, amended. Raising the threshold is monotone for one assignment: from the same
  groups and for the same article, a step at the higher threshold leaves at least as many
  groups as a step at the lower one (a join can only turn into a new group). Over a whole
  run the number of groups is at most the number of articles for every threshold, and it
  is the number of articles, hence the largest possible, for every threshold above 1.
\<close>

theorem threshold_monotone_amended:
  "(t1 \<le> t2 \<longrightarrow>
      length (fst (groupStep (calculateSimilarity parseDate hostname) t1 arts i (groups, used)))
        \<le> length (fst (groupStep (calculateSimilarity parseDate hostname) t2 arts i (groups, used))))
   \<and> length (groupSimilarArticles parseDate hostname arts t1) \<le> length arts
   \<and> (1 < t2 \<longrightarrow> length (groupSimilarArticles parseDate hostname arts t2) = length arts)"
proof -
  let ?sim = "calculateSimilarity parseDate hostname"
  have le1: "\<forall>x y. ?sim x y \<le> 1"
    by (simp add: calculateSimilarity_def Let_def)
  have a: "t1 \<le> t2 \<longrightarrow>
      length (fst (groupStep ?sim t1 arts i (groups, used)))
        \<le> length (fst (groupStep ?sim t2 arts i (groups, used)))"
    using groupStep_threshold_mono by blast
  have b: "length (groupSimilarArticles parseDate hostname arts t1) \<le> length arts"
    unfolding groupSimilarArticles_length by (rule groupLoop_count)
  have c: "1 < t2 \<longrightarrow> length (groupSimilarArticles parseDate hostname arts t2) = length arts"
    unfolding groupSimilarArticles_length using groupLoop_above_one [of ?sim t2 "length arts" arts] le1
    by simp
  from a b c show ?thesis by blast
qed

theorem threshold_monotone_amended_witness:
  "((0.3::real) \<le> 2 \<and>
      length (fst (groupStep (calculateSimilarity (\<lambda>_. None) (\<lambda>_. None)) 0.3 thresholdPool 1
                     ([\<lparr>groupId = ''group-1'', articles = [thresholdPool ! 0]\<rparr>], {0})))
        \<le> length (fst (groupStep (calculateSimilarity (\<lambda>_. None) (\<lambda>_. None)) 2 thresholdPool 1
                     ([\<lparr>groupId = ''group-1'', articles = [thresholdPool ! 0]\<rparr>], {0}))))
   \<and> length (groupSimilarArticles (\<lambda>_. None) (\<lambda>_. None) thresholdPool 0.3) \<le> length thresholdPool
   \<and> ((1::real) < 2 \<and> length (groupSimilarArticles (\<lambda>_. None) (\<lambda>_. None) thresholdPool 2)
                         = length thresholdPool)"
  using threshold_monotone_amended [of "0.3" 2 "\<lambda>_. None" "\<lambda>_. None" thresholdPool 1
          "[\<lparr>groupId = ''group-1'', articles = [thresholdPool ! 0]\<rparr>]" "{0}"]
  by simp

text \<open>A similarity of 0 never selects a group, whatever the threshold: the best
  similarity starts at 0 and only a strictly greater one replaces it.\<close>

lemma findBestGroup_zero_never_joins:
  assumes "\<forall>k < length gs. sim a (hd (articles (gs ! k))) \<le> 0"
  shows "fst (findBestGroup sim thr a gs 0 (None, 0)) = None"
proof (cases "fst (findBestGroup sim thr a gs 0 (None, 0))")
  case None
  then show ?thesis .
next
  case (Some b)
  from findBestGroup_Some [OF Some]
  have "b < length gs" and "0 < sim a (hd (articles (gs ! b)))"
    by simp_all
  with assms show ?thesis
    by fastforce
qed

text \<open>When some group has a similarity to the article that is at or above the threshold
  and greater than 0, the article is appended to a group \<open>b\<close> of highest similarity among
  all groups, and every group created before \<open>b\<close> has a strictly smaller similarity.\<close>

lemma groupStep_joins_earliest_best:
  assumes "i \<notin> used" and "k < length groups"
    and "similarityThreshold \<le> calculateSimilarity parseDate hostname (arts ! i) (hd (articles (groups ! k)))"
    and "0 < calculateSimilarity parseDate hostname (arts ! i) (hd (articles (groups ! k)))"
  shows "\<exists>b < length groups.
           groupStep (calculateSimilarity parseDate hostname) similarityThreshold arts i (groups, used)
             = (groups[b := (groups ! b)\<lparr>articles := articles (groups ! b) @ [arts ! i]\<rparr>], insert i used)
           \<and> (\<forall>j < length groups.
                 calculateSimilarity parseDate hostname (arts ! i) (hd (articles (groups ! j)))
                   \<le> calculateSimilarity parseDate hostname (arts ! i) (hd (articles (groups ! b))))
           \<and> (\<forall>j < b.
                 calculateSimilarity parseDate hostname (arts ! i) (hd (articles (groups ! j)))
                   < calculateSimilarity parseDate hostname (arts ! i) (hd (articles (groups ! b))))"
proof -
  let ?sim = "calculateSimilarity parseDate hostname"
  from findBestGroup_exists [of k groups similarityThreshold ?sim "arts ! i"] assms
  obtain b where b: "fst (findBestGroup ?sim similarityThreshold (arts ! i) groups 0 (None, 0)) = Some b"
    by blast
  have step: "groupStep ?sim similarityThreshold arts i (groups, used)
                = (groups[b := (groups ! b)\<lparr>articles := articles (groups ! b) @ [arts ! i]\<rparr>], insert i used)"
    using assms(1) b by (simp add: groupStep_def Let_def)
  from findBestGroup_Some [OF b] step show ?thesis
    by blast
qed

text \<open>
  C6. The tie-break is not the stated one when the tie is at the similarity 0. With the
  threshold 0, the three articles of \<open>tiePool\<close> share no term: when the third is placed,
  the two existing groups tie on the highest similarity, 0, which is at the threshold, and
  the article is appended to neither; it starts \<^verbatim>\<open>group-3\<close>. The parameter is documented
  as the minimum similarity to group, from 0 to 1, but \<^verbatim>\<open>bestSimilarity\<close> starts at 0 and
  the test is \<^verbatim>\<open>similarity > bestSimilarity\<close>. For a tie above 0 the earliest group is
  chosen: the third article of \<open>positiveTiePool\<close> has the similarity 1/3 to both existing
  groups and is appended to \<^verbatim>\<open>group-1\<close>.
\<close>

theorem tie_at_zero_starts_new_group:
  "calculateSimilarity (\<lambda>_. None) (\<lambda>_. None) (tiePool ! 2) (tiePool ! 0) = 0
   \<and> calculateSimilarity (\<lambda>_. None) (\<lambda>_. None) (tiePool ! 2) (tiePool ! 1) = 0
   \<and> groupSimilarArticles (\<lambda>_. None) (\<lambda>_. None) tiePool 0
       = [\<lparr>groupId = ''group-1'', articles = [tiePool ! 0]\<rparr>,
          \<lparr>groupId = ''group-2'', articles = [tiePool ! 1]\<rparr>,
          \<lparr>groupId = ''group-3'', articles = [tiePool ! 2]\<rparr>]
   \<and> calculateSimilarity (\<lambda>_. None) (\<lambda>_. None) (positiveTiePool ! 2) (positiveTiePool ! 0) = 1 / 3
   \<and> calculateSimilarity (\<lambda>_. None) (\<lambda>_. None) (positiveTiePool ! 2) (positiveTiePool ! 1) = 1 / 3
   \<and> groupSimilarArticles (\<lambda>_. None) (\<lambda>_. None) positiveTiePool 0.3
       = [\<lparr>groupId = ''group-1'', articles = [positiveTiePool ! 0, positiveTiePool ! 2]\<rparr>,
          \<lparr>groupId = ''group-2'', articles = [positiveTiePool ! 1]\<rparr>]"
proof -
  have a: "calculateSimilarity (\<lambda>_. None) (\<lambda>_. None) (tiePool ! 2) (tiePool ! 0) = 0
   \<and> calculateSimilarity (\<lambda>_. None) (\<lambda>_. None) (tiePool ! 2) (tiePool ! 1) = 0
   \<and> groupSimilarArticles (\<lambda>_. None) (\<lambda>_. None) tiePool 0
       = [\<lparr>groupId = ''group-1'', articles = [tiePool ! 0]\<rparr>,
          \<lparr>groupId = ''group-2'', articles = [tiePool ! 1]\<rparr>,
          \<lparr>groupId = ''group-3'', articles = [tiePool ! 2]\<rparr>]"
    by code_simp
  have b: "calculateSimilarity (\<lambda>_. None) (\<lambda>_. None) (positiveTiePool ! 2) (positiveTiePool ! 0) = 1 / 3
   \<and> calculateSimilarity (\<lambda>_. None) (\<lambda>_. None) (positiveTiePool ! 2) (positiveTiePool ! 1) = 1 / 3
   \<and> groupSimilarArticles (\<lambda>_. None) (\<lambda>_. None) positiveTiePool 0.3
       = [\<lparr>groupId = ''group-1'', articles = [positiveTiePool ! 0, positiveTiePool ! 2]\<rparr>,
          \<lparr>groupId = ''group-2'', articles = [positiveTiePool ! 1]\<rparr>]"
    by code_simp
  from a b show ?thesis
    by blast
qed

section \<open>Group filter\<close>

lemma length_uniqueInOrder: "length (uniqueInOrder xs) = card (set xs)"
  by (simp add: uniqueInOrder_def length_remdups_card_conv)

lemma keepGroup_sources: "keepGroup g \<Longrightarrow> 2 \<le> card (source ` set (articles g))"
  by (simp add: keepGroup_def Let_def length_uniqueInOrder split: if_splits)

lemma set_filterAndSortGroups:
  "set (filterAndSortGroups parseDate groups) = {g \<in> set groups. keepGroup g}"
  by (simp add: filterAndSortGroups_def Let_def)

text \<open>
  C7. After the filter (and the sort by latest date that follows it), every retained
  group holds articles of at least two distinct sources; a group of the input with fewer
  than two distinct sources, in particular one whose articles all have the same source,
  is not retained.
\<close>

theorem filter_invariant:
  "(\<forall>g \<in> set (filterAndSortGroups parseDate groups). 2 \<le> card (source ` set (articles g)))
   \<and> (\<forall>g \<in> set groups. card (source ` set (articles g)) < 2
         \<longrightarrow> g \<notin> set (filterAndSortGroups parseDate groups))
   \<and> (\<forall>g \<in> set groups. (\<exists>s. \<forall>a \<in> set (articles g). source a = s)
         \<longrightarrow> g \<notin> set (filterAndSortGroups parseDate groups))"
proof -
  have a: "\<forall>g \<in> set (filterAndSortGroups parseDate groups). 2 \<le> card (source ` set (articles g))"
    by (simp add: set_filterAndSortGroups keepGroup_sources)
  then have b: "\<forall>g \<in> set groups. card (source ` set (articles g)) < 2
         \<longrightarrow> g \<notin> set (filterAndSortGroups parseDate groups)"
    by fastforce
  have "card (source ` set (articles g)) < 2" if "\<forall>a \<in> set (articles g). source a = s" for g s
  proof -
    from that have "source ` set (articles g) \<subseteq> {s}" by auto
    then have "card (source ` set (articles g)) \<le> card {s}"
      by (intro card_mono) auto
    then show ?thesis by simp
  qed
  with b have c: "\<forall>g \<in> set groups. (\<exists>s. \<forall>a \<in> set (articles g). source a = s)
         \<longrightarrow> g \<notin> set (filterAndSortGroups parseDate groups)"
    by blast
  from a b c show ?thesis by blast
qed

theorem filter_invariant_witness:
  "filterAndSortGroups (\<lambda>_. None) [singleSourceGroup, multiSourceGroup] = [multiSourceGroup]
   \<and> 2 \<le> card (source ` set (articles multiSourceGroup))
   \<and> card (source ` set (articles singleSourceGroup)) < 2
   \<and> singleSourceGroup \<notin> set (filterAndSortGroups (\<lambda>_. None) [singleSourceGroup, multiSourceGroup])"
proof -
  let ?r = "filterAndSortGroups (\<lambda>_. None) [singleSourceGroup, multiSourceGroup]"
  have run: "?r = [multiSourceGroup]"
    by code_simp
  have small: "card (source ` set (articles singleSourceGroup)) < 2"
    by code_simp
  from run have "multiSourceGroup \<in> set ?r" by simp
  with filter_invariant [of "\<lambda>_. None" "[singleSourceGroup, multiSourceGroup]"]
  have big: "2 \<le> card (source ` set (articles multiSourceGroup))"
    by blast
  have "singleSourceGroup \<in> set [singleSourceGroup, multiSourceGroup]" by simp
  with filter_invariant [of "\<lambda>_. None" "[singleSourceGroup, multiSourceGroup]"] small
  have "singleSourceGroup \<notin> set ?r"
    by blast
  with run big small show ?thesis by blast
qed

section \<open>Pagination\<close>

lemma sliceIndex_nonneg: "0 \<le> r \<Longrightarrow> sliceIndex len (Some r) = min (nat r) len"
  by (simp add: sliceIndex_def)

lemma jsSlice_nonneg:
  assumes "0 \<le> s"
  shows "jsSlice xs (Some s) (Some (s + int n)) = take n (drop (nat s) xs)"
proof -
  have k: "sliceIndex (length xs) (Some s) = min (nat s) (length xs)"
    using assms by (rule sliceIndex_nonneg)
  have f: "sliceIndex (length xs) (Some (s + int n)) = min (nat s + n) (length xs)"
    using assms by (simp add: sliceIndex_def nat_add_distrib)
  show ?thesis
  proof (cases "nat s \<le> length xs")
    case True
    then show ?thesis
      unfolding jsSlice_def Let_def k f by (simp add: min_def)
  next
    case False
    then show ?thesis
      unfolding jsSlice_def Let_def k f by simp
  qed
qed

lemma jsSlice_NaN: "jsSlice xs None None = []"
  by (simp add: jsSlice_def sliceIndex_def)

lemma page_start:
  assumes "1 \<le> c"
  shows "nat ((c - 1) * 9) = 9 * (nat c - 1)"
proof -
  from assms have "int (9 * (nat c - 1)) = (c - 1) * 9"
    by (simp add: of_nat_diff)
  then have "nat (int (9 * (nat c - 1))) = nat ((c - 1) * 9)"
    by (rule arg_cong)
  then show ?thesis
    by simp
qed


lemma paginate_core:
  assumes pg: "max 1 \<lceil>real (length gs) / real (9::nat)\<rceil> = pages"
    and cur: "mathMax (Some 1) (mathMin pn (Some pages)) = Some c"
    and c1: "1 \<le> c"
  shows "paginate gs pn =
           \<lparr>finalGroups = take 9 (drop (9 * (nat c - 1)) gs), currentPage = Some c,
            totalPages = pages, totalGroups = length gs, groupsPerPage = 9\<rparr>"
proof -
  from c1 have nonneg: "0 \<le> (c - 1) * int 9" by simp
  have sl: "jsSlice gs (Some ((c - 1) * int 9)) (Some ((c - 1) * int 9 + int 9))
              = take 9 (drop (nat ((c - 1) * int 9)) gs)"
    using nonneg by (rule jsSlice_nonneg)
  have idx: "nat ((c - 1) * int 9) = 9 * (nat c - 1)"
    using page_start [OF c1] by simp
  show ?thesis
    unfolding paginate_def Let_def GROUPS_PER_PAGE_def pg cur option.map sl idx
    by simp
qed

lemma paginate_core_NaN:
  assumes cur: "mathMax (Some 1) (mathMin pn (Some (max 1 \<lceil>real (length gs) / real (9::nat)\<rceil>))) = None"
  shows "currentPage (paginate gs pn) = None \<and> finalGroups (paginate gs pn) = []"
  unfolding paginate_def Let_def GROUPS_PER_PAGE_def cur option.map jsSlice_NaN
  by simp

text \<open>
  C8. For every list of groups and every integer page number: at most 9 groups are
  returned; \<open>totalPages\<close> is \<open>max 1 (ceiling (totalGroups / 9))\<close>; \<open>currentPage\<close> is the
  page number clamped into \<open>[1, totalPages]\<close>; the groups returned are the 9 (or fewer)
  that start at index \<open>9 * (currentPage - 1)\<close>. With 25 groups and page 2 these are the
  groups at the indices 9 to 17, with 3 pages in total and the current page 2.
\<close>

theorem paginate_bounds:
  "length (finalGroups (paginate gs (Some p))) \<le> 9
   \<and> totalPages (paginate gs (Some p)) = max 1 \<lceil>real (length gs) / 9\<rceil>
   \<and> currentPage (paginate gs (Some p)) = Some (max 1 (min p (totalPages (paginate gs (Some p)))))
   \<and> 1 \<le> max 1 (min p (totalPages (paginate gs (Some p))))
   \<and> max 1 (min p (totalPages (paginate gs (Some p)))) \<le> totalPages (paginate gs (Some p))
   \<and> finalGroups (paginate gs (Some p))
       = take 9 (drop (9 * (nat (max 1 (min p (totalPages (paginate gs (Some p))))) - 1)) gs)
   \<and> paginate [0 ..< 25] (Some 2)
       = \<lparr>finalGroups = [9 ..< 18], currentPage = Some 2, totalPages = 3, totalGroups = 25,
          groupsPerPage = 9\<rparr>"
proof -
  define pages where "pages = max 1 \<lceil>real (length gs) / 9\<rceil>"
  define c where "c = max 1 (min p pages)"
  have pg: "max 1 \<lceil>real (length gs) / real (9::nat)\<rceil> = pages"
    by (simp add: pages_def)
  have p1: "1 \<le> pages"
    by (simp add: pages_def)
  have cur: "mathMax (Some 1) (mathMin (Some p) (Some pages)) = Some c"
    by (simp add: mathMax_def mathMin_def c_def)
  have c1: "1 \<le> c"
    by (simp add: c_def)
  have c2: "c \<le> pages"
    using p1 by (simp add: c_def)
  note P = paginate_core [OF pg cur c1]
  have tp: "totalPages (paginate gs (Some p)) = pages"
    by (simp add: P)
  have cp: "currentPage (paginate gs (Some p)) = Some c"
    by (simp add: P)
  have fin: "finalGroups (paginate gs (Some p)) = take 9 (drop (9 * (nat c - 1)) gs)"
    by (simp add: P)
  have len: "length (finalGroups (paginate gs (Some p))) \<le> 9"
    by (simp add: fin)
  have ex: "paginate [0 ..< 25] (Some 2)
       = \<lparr>finalGroups = [9 ..< 18], currentPage = Some 2, totalPages = 3, totalGroups = 25,
          groupsPerPage = 9\<rparr>"
  proof -
    have a: "max 1 \<lceil>real (length [0 ..< 25]) / real (9::nat)\<rceil> = 3"
      by simp
    have b: "mathMax (Some 1) (mathMin (Some 2) (Some 3)) = Some 2"
      by (simp add: mathMax_def mathMin_def)
    have "paginate [0 ..< 25] (Some 2) =
           \<lparr>finalGroups = take 9 (drop (9 * (nat 2 - 1)) [0 ..< 25]), currentPage = Some 2,
            totalPages = 3, totalGroups = length [0 ..< 25], groupsPerPage = 9\<rparr>"
      by (rule paginate_core [OF a b]) simp
    then show ?thesis
      by simp
  qed
  show ?thesis
    unfolding tp c_def [symmetric]
    using len cp c1 c2 fin ex pages_def by blast
qed

text \<open>
  C9. When the \<^verbatim>\<open>page\<close> parameter is present and \<^verbatim>\<open>parseInt\<close> gives NaN for it, the
  clamped \<open>currentPage\<close> is NaN, not a page in \<open>[1, totalPages]\<close>, and no group is
  returned.
\<close>

theorem paginate_NaN:
  assumes "page \<noteq> []" and "parseInt10 page = None"
  shows "currentPage (paginate gs (pageNumOf page)) = None
       \<and> finalGroups (paginate gs (pageNumOf page)) = []"
proof -
  from assms have "pageNumOf page = None"
    by (simp add: pageNumOf_def)
  then have "mathMax (Some 1) (mathMin (pageNumOf page)
               (Some (max 1 \<lceil>real (length gs) / real (9::nat)\<rceil>))) = None"
    by (simp add: mathMax_def mathMin_def)
  then show ?thesis
    by (rule paginate_core_NaN)
qed

theorem paginate_NaN_witness:
  "''abc'' \<noteq> [] \<and> parseInt10 ''abc'' = None
   \<and> currentPage (paginate [0 ..< 25 :: nat] (pageNumOf ''abc'')) = None
   \<and> finalGroups (paginate [0 ..< 25 :: nat] (pageNumOf ''abc'')) = []"
proof -
  have h1: "''abc'' \<noteq> []" by simp
  have h2: "parseInt10 ''abc'' = None" by code_simp
  from paginate_NaN [OF h1 h2, of "[0 ..< 25 :: nat]"] h1 h2 show ?thesis
    by blast
qed

section \<open>Normalization\<close>

text \<open>Every article of the output has a non-empty \<open>url\<close> and a non-empty \<open>title\<close>.\<close>

lemma normalizeArticles_nonempty:
  "\<forall>a \<in> set (normalizeArticles md5hex raws src). url a \<noteq> [] \<and> title a \<noteq> []"
  by (auto simp: normalizeArticles_def Let_def split: option.splits)

lemma orString_single: "orString [v] d = (if truthy v then the v else d)"
  by (simp add: orString_def truthy_def split: option.splits)

lemma normalizeGuardian_title:
  "title (normalizeGuardian md5hex raw)
     = (if truthy (rawProp raw ''webTitle'') then the (rawProp raw ''webTitle'') else ''No title'')"
  by (simp add: normalizeGuardian_def orString_single)

lemma normalizeGuardian_url:
  "url (normalizeGuardian md5hex raw)
     = (if truthy (rawProp raw ''webUrl'') then the (rawProp raw ''webUrl'') else [])"
  by (simp add: normalizeGuardian_def orString_single)

lemma truthy_the: "truthy v \<Longrightarrow> the v \<noteq> []"
  by (simp add: truthy_def split: option.splits)

lemma guardian_placeholder_title:
  assumes "truthy (rawProp raw ''webUrl'')" and "\<not> truthy (rawProp raw ''webTitle'')"
    and "truthy (rawProp raw ''title'')"
  shows "map title (normalizeArticles md5hex [raw] ''guardian'') = [''No title'']"
proof -
  from assms have "hasUrl raw" "hasTitle raw"
    by (simp_all add: hasUrl_def hasTitle_def)
  moreover from assms(1) have "url (normalizeGuardian md5hex raw) \<noteq> []"
    by (simp add: normalizeGuardian_url truthy_the)
  moreover from assms(2) have "title (normalizeGuardian md5hex raw) = ''No title''"
    by (simp add: normalizeGuardian_title)
  ultimately show ?thesis
    by (simp add: normalizeArticles_def normalizers_def Let_def)
qed

lemma guardian_misfiled_url_dropped:
  assumes "\<not> truthy (rawProp raw ''webUrl'')"
  shows "normalizeArticles md5hex [raw] ''guardian'' = []"
proof -
  from assms have "url (normalizeGuardian md5hex raw) = []"
    by (simp add: normalizeGuardian_url)
  then show ?thesis
    by (simp add: normalizeArticles_def normalizers_def Let_def)
qed

text \<open>
  C4. Not every raw record without a usable title is dropped. The filter accepts a record
  that has any of \<^verbatim>\<open>webTitle\<close>, \<^verbatim>\<open>title\<close> and \<^verbatim>\<open>seotitle\<close>, whatever the source, while
  \<open>normalizeGuardian\<close> reads \<^verbatim>\<open>webTitle\<close> only and puts \<^verbatim>\<open>No title\<close> in its place when it
  is missing; the final check then finds a non-empty title. So the Guardian record
  \<open>rawMisfiledTitle\<close>, which has no \<^verbatim>\<open>webTitle\<close>, is surfaced with the title
  \<^verbatim>\<open>No title\<close>. The same final check does drop \<open>rawMisfiledUrl\<close>, whose address is under
  \<^verbatim>\<open>url\<close> and not under \<^verbatim>\<open>webUrl\<close>, because the default of \<open>url\<close> is the empty string.
\<close>

theorem normalizeArticles_surfaces_untitled:
  "rawProp rawMisfiledTitle ''webTitle'' = None
   \<and> map title (normalizeArticles (\<lambda>_. ''0123456789abcdef'') [rawMisfiledTitle] ''guardian'')
       = [''No title'']
   \<and> map url (normalizeArticles (\<lambda>_. ''0123456789abcdef'') [rawMisfiledTitle] ''guardian'')
       = [''https://www.theguardian.com/c'']
   \<and> rawProp rawMisfiledUrl ''webUrl'' = None
   \<and> normalizeArticles (\<lambda>_. ''0123456789abcdef'') [rawMisfiledUrl] ''guardian'' = []"
proof -
  have a: "rawProp rawMisfiledTitle ''webTitle'' = None"
    by code_simp
  have b: "map title (normalizeArticles (\<lambda>_. ''0123456789abcdef'') [rawMisfiledTitle] ''guardian'')
       = [''No title'']"
    by code_simp
  have c: "map url (normalizeArticles (\<lambda>_. ''0123456789abcdef'') [rawMisfiledTitle] ''guardian'')
       = [''https://www.theguardian.com/c'']"
    by code_simp
  have d: "rawProp rawMisfiledUrl ''webUrl'' = None"
    by code_simp
  have e: "normalizeArticles (\<lambda>_. ''0123456789abcdef'') [rawMisfiledUrl] ''guardian'' = []"
    by code_simp
  from a b c d e show ?thesis
    by blast
qed

section \<open>Titles are excerpts\<close>

lemma toLowerChar_toUpperChar: "toLowerChar (toUpperChar c) = toLowerChar c"
proof (cases "isLower c")
  case True
  then have n: "97 \<le> (of_char c :: nat)" "(of_char c :: nat) \<le> 122"
    by (simp_all add: isLower_def Let_def)
  then have up: "(of_char (char_of (of_char c - (32::nat))) :: nat) = of_char c - 32"
    by simp
  from n have restore: "of_char c - (32::nat) + 32 = of_char c"
    by simp
  from n have notUpper: "\<not> isUpper c"
    by (simp add: isUpper_def Let_def)
  from n have isUp: "isUpper (char_of (of_char c - (32::nat)))"
    unfolding isUpper_def Let_def up by arith
  have fin: "char_of (of_char (char_of (of_char c - (32::nat))) + (32::nat)) = c"
    unfolding up restore by simp
  show ?thesis
    using True notUpper isUp fin by (simp only: toLowerChar_def toUpperChar_def if_True if_False)
next
  case False
  then show ?thesis by (simp add: toUpperChar_def)
qed

lemma toLowerCase_capitalizeFirst: "toLowerCase (capitalizeFirst s) = toLowerCase s"
  by (cases s) (simp_all add: capitalizeFirst_def toLowerCase_def toLowerChar_toUpperChar)

lemma excerptOf_refl: "excerptOf s s"
  by (simp add: excerptOf_def)

lemma excerptOf_trans: "excerptOf a b \<Longrightarrow> excerptOf b c \<Longrightarrow> excerptOf a c"
  unfolding excerptOf_def by (rule sublist_order.order_trans)

lemma sublist_excerptOf: "sublist t s \<Longrightarrow> excerptOf t s"
  unfolding excerptOf_def toLowerCase_def by (rule map_mono_sublist)

lemma excerptOf_capitalizeFirst: "excerptOf (capitalizeFirst s) s"
  by (simp add: excerptOf_def toLowerCase_capitalizeFirst)

lemma sublist_trim: "sublist (trim s) s"
proof -
  have "sublist (rev (dropWhile isSpace (rev (dropWhile isSpace s)))) (dropWhile isSpace s)"
    by (simp add: sublist_rev_left)
  moreover have "sublist (dropWhile isSpace s) s"
    by simp
  ultimately show ?thesis
    unfolding trim_def by (rule sublist_order.order_trans)
qed

lemma excerptOf_trim: "excerptOf (trim s) s"
  by (rule sublist_excerptOf) (rule sublist_trim)

lemma excerptOf_take: "excerptOf (take n s) s"
  by (rule sublist_excerptOf) simp

lemma excerptOf_firstSentenceOf: "excerptOf (firstSentenceOf s) s"
  unfolding firstSentenceOf_def by (rule sublist_excerptOf) simp

lemma truncateAtWord_prefix: "prefix (truncateAtWord s) s"
  by (simp add: truncateAtWord_def Let_def take_is_prefix)

lemma excerptOf_truncateAtWord: "excerptOf (truncateAtWord s) s"
  by (rule sublist_excerptOf) (simp add: truncateAtWord_prefix)

lemma firstSome_SomeD: "firstSome f xs = Some y \<Longrightarrow> \<exists>x \<in> set xs. f x = Some y"
  by (induction xs) (auto split: option.splits)

lemma matchAtoms_suffix: "matchAtoms pat s = Some r \<Longrightarrow> suffix r s"
proof (induction pat s rule: matchAtoms.induct)
  case (1 s)
  then show ?case by simp
next
  case (2 p rest s)
  then show ?case
    by (auto split: list.splits if_splits intro: suffix_ConsI)
next
  case (3 ls rest s)
  from firstSome_SomeD [OF "3.prems" [simplified]]
  obtain l where l: "ciPrefix l s" "matchAtoms rest (drop (length l) s) = Some r"
    by (auto split: if_splits)
  from "3.IH" [OF l] have "suffix r (drop (length l) s)" .
  then show ?case
    using suffix_drop suffix_order.order_trans by blast
next
  case (4 lo hi p rest s)
  from firstSome_SomeD [OF "4.prems" [simplified]]
  obtain n where n: "matchAtoms rest (drop n s) = Some r"
    by auto
  from "4.IH" [OF n] have "suffix r (drop n s)" .
  then show ?case
    using suffix_drop suffix_order.order_trans by blast
next
  case (5 rest s)
  then show ?case
    by (auto split: if_splits)
qed

lemma replaceStart_suffix: "suffix (replaceStart pat s) s"
  by (auto simp: replaceStart_def split: option.splits dest: matchAtoms_suffix)

lemma excerptOf_replaceStart: "excerptOf (replaceStart pat s) s"
  by (rule sublist_excerptOf) (simp add: replaceStart_suffix)

lemma searchFrom_split:
  "searchFrom pat pre s = Some (p, m, post) \<Longrightarrow>
     p @ m @ post = rev pre @ s \<and> (\<exists>s'. matchAtoms pat s' = Some post)"
proof (induction s arbitrary: pre)
  case Nil
  then show ?case
    by (auto split: option.splits dest: matchAtoms_suffix)
next
  case (Cons c cs)
  show ?case
  proof (cases "matchAtoms pat (c # cs)")
    case None
    with Cons.prems have "searchFrom pat (c # pre) cs = Some (p, m, post)"
      by simp
    from Cons.IH [OF this] show ?thesis
      by simp
  next
    case (Some r)
    with Cons.prems have eqs: "p = rev pre" "m = take (length (c # cs) - length r) (c # cs)" "post = r"
      by auto
    from matchAtoms_suffix [OF Some] obtain z where z: "c # cs = z @ r"
      by (auto simp: suffix_def)
    have "take (length (c # cs) - length r) (c # cs) = z"
      unfolding z by simp
    with eqs z Some show ?thesis
      by auto
  qed
qed

lemma matchText_sublist: "matchText pat s = Some m \<Longrightarrow> sublist m s"
proof -
  assume "matchText pat s = Some m"
  then obtain p post where "searchFrom pat [] s = Some (p, m, post)"
    by (auto simp: matchText_def split: option.splits)
  from searchFrom_split [OF this] have "s = p @ m @ post"
    by simp
  then show ?thesis
    by simp
qed

lemma matchAtoms_Eos: "matchAtoms (pat @ [Eos]) s = Some r \<Longrightarrow> r = []"
proof (induction pat arbitrary: s)
  case Nil
  then show ?case by (auto split: if_splits)
next
  case (Cons a pat)
  show ?case
  proof (cases a)
    case (Cls p)
    with Cons show ?thesis
      by (auto split: list.splits if_splits)
  next
    case (Lits ls)
    with Cons.prems have "firstSome (\<lambda>l. if ciPrefix l s then matchAtoms (pat @ [Eos]) (drop (length l) s) else None) ls = Some r"
      by simp
    from firstSome_SomeD [OF this] Cons.IH show ?thesis
      by (auto split: if_splits)
  next
    case (Rep lo hi p)
    with Cons.prems have "firstSome (\<lambda>n. matchAtoms (pat @ [Eos]) (drop n s)) (rev [lo ..< Suc (repCount hi p s)]) = Some r"
      by simp
    from firstSome_SomeD [OF this] Cons.IH show ?thesis
      by auto
  next
    case Eos
    with Cons show ?thesis
      by (auto split: if_splits)
  qed
qed

lemma replaceFirst_sourceSuffix_prefix: "prefix (replaceFirst sourceSuffixPattern s) s"
proof (cases "searchFrom sourceSuffixPattern [] s")
  case None
  then show ?thesis by (simp add: replaceFirst_def)
next
  case (Some res)
  obtain p m post where res: "res = (p, m, post)"
    by (cases res)
  from searchFrom_split [OF Some [unfolded res]]
  obtain s' where split: "s = p @ m @ post" and mt: "matchAtoms sourceSuffixPattern s' = Some post"
    by auto
  have pat: "sourceSuffixPattern
      = [Rep 0 None isSpace, Lits [''-''], Rep 0 None isSpace,
         Lits [''The Guardian'', ''Guardian'', ''GDELT'', ''Currents'', ''Reuters'', ''AP'', ''BBC''],
         Rep 0 None notLineEnd] @ [Eos]"
    by (simp add: sourceSuffixPattern_def)
  from mt have "post = []"
    unfolding pat by (rule matchAtoms_Eos)
  with Some res split show ?thesis
    by (simp add: replaceFirst_def)
qed

lemma excerptOf_replaceFirst_sourceSuffix: "excerptOf (replaceFirst sourceSuffixPattern s) s"
  by (rule sublist_excerptOf) (simp add: replaceFirst_sourceSuffix_prefix)

lemma strategy1_excerpt:
  assumes "strategy1 summary = Some t"
  shows "excerptOf t summary"
proof -
  from firstSome_SomeD [OF assms [unfolded strategy1_def]]
  obtain pattern m where m: "matchText pattern summary = Some m"
    and t: "t = capitalizeFirst (trim (replaceStart [Lits leadInPhrases] (trim m)))
            \<or> t = truncateAtWord (capitalizeFirst (trim (replaceStart [Lits leadInPhrases] (trim m))))"
    by (auto simp: Let_def split: option.splits if_splits)
  let ?phrase = "trim (replaceStart [Lits leadInPhrases] (trim m))"
  have "excerptOf m summary"
    using m by (intro sublist_excerptOf matchText_sublist)
  then have "excerptOf (trim m) summary"
    using excerptOf_trim excerptOf_trans by blast
  then have "excerptOf (replaceStart [Lits leadInPhrases] (trim m)) summary"
    using excerptOf_replaceStart excerptOf_trans by blast
  then have "excerptOf ?phrase summary"
    using excerptOf_trim excerptOf_trans by blast
  then have cap: "excerptOf (capitalizeFirst ?phrase) summary"
    using excerptOf_capitalizeFirst excerptOf_trans by blast
  then have "excerptOf (truncateAtWord (capitalizeFirst ?phrase)) summary"
    using excerptOf_truncateAtWord excerptOf_trans by blast
  with cap t show ?thesis
    by blast
qed

lemma strategy2_excerpt:
  assumes "strategy2 summary = Some t"
  shows "excerptOf t summary"
proof -
  let ?fs = "trim (firstSentenceOf summary)"
  let ?n0 = "trim (replaceStart [Lits relativeWords, Rep 1 None isSpace]
                    (replaceStart [Lits leadInWords, Rep 1 None isSpace] ?fs))"
  let ?n1 = "if length ?n0 > 0 then capitalizeFirst ?n0 else ?n0"
  from assms have t: "t = ?n1 \<or> t = truncateAtWord ?n1"
    unfolding strategy2_def Let_def by (auto split: if_splits)
  have "excerptOf (firstSentenceOf summary) summary"
    by (rule excerptOf_firstSentenceOf)
  then have "excerptOf ?fs summary"
    using excerptOf_trim excerptOf_trans by blast
  then have "excerptOf (replaceStart [Lits leadInWords, Rep 1 None isSpace] ?fs) summary"
    using excerptOf_replaceStart excerptOf_trans by blast
  then have "excerptOf (replaceStart [Lits relativeWords, Rep 1 None isSpace]
                    (replaceStart [Lits leadInWords, Rep 1 None isSpace] ?fs)) summary"
    using excerptOf_replaceStart excerptOf_trans by blast
  then have n0: "excerptOf ?n0 summary"
    using excerptOf_trim excerptOf_trans by blast
  then have cap: "excerptOf (capitalizeFirst ?n0) summary"
    using excerptOf_capitalizeFirst excerptOf_trans by blast
  have n1: "excerptOf ?n1 summary"
  proof (cases "length ?n0 > 0")
    case True
    with cap show ?thesis by (simp only: if_True)
  next
    case False
    with n0 show ?thesis by (simp only: if_False)
  qed
  then have "excerptOf (truncateAtWord ?n1) summary"
    using excerptOf_truncateAtWord excerptOf_trans by blast
  with n1 t show ?thesis
    by blast
qed

lemma strategy3_excerpt:
  assumes "strategy3 summary = Some t"
  shows "excerptOf t summary"
proof -
  let ?c0 = "trim (take 80 summary)"
  let ?c1 = "if lastIndexOfSpace ?c0 > 30 then take (nat (lastIndexOfSpace ?c0)) ?c0 else ?c0"
  let ?c2 = "trim (replaceStart [Lits leadInWords, Rep 1 None isSpace] ?c1)"
  from assms have t: "t = capitalizeFirst ?c2"
    unfolding strategy3_def Let_def by (auto split: if_splits)
  have "excerptOf (take 80 summary) summary"
    by (rule excerptOf_take)
  then have c0: "excerptOf ?c0 summary"
    using excerptOf_trim excerptOf_trans by blast
  then have "excerptOf (take (nat (lastIndexOfSpace ?c0)) ?c0) summary"
    using excerptOf_take excerptOf_trans by blast
  with c0 have "excerptOf ?c1 summary"
    by simp
  then have "excerptOf (replaceStart [Lits leadInWords, Rep 1 None isSpace] ?c1) summary"
    using excerptOf_replaceStart excerptOf_trans by blast
  then have "excerptOf ?c2 summary"
    using excerptOf_trim excerptOf_trans by blast
  then have "excerptOf (capitalizeFirst ?c2) summary"
    using excerptOf_capitalizeFirst excerptOf_trans by blast
  with t show ?thesis
    by simp
qed

lemma strategy4_excerpt:
  assumes "strategy4 summary = Some t"
  shows "excerptOf t summary"
proof -
  let ?c0 = "trim (take 70 summary)"
  let ?c1 = "if lastIndexOfSpace ?c0 > 20 then take (nat (lastIndexOfSpace ?c0)) ?c0 else ?c0"
  let ?c2 = "trim (replaceStart [Lits leadInPhrases] ?c1)"
  from assms have t: "t = capitalizeFirst ?c2"
    unfolding strategy4_def Let_def by (auto split: if_splits)
  have "excerptOf (take 70 summary) summary"
    by (rule excerptOf_take)
  then have c0: "excerptOf ?c0 summary"
    using excerptOf_trim excerptOf_trans by blast
  then have "excerptOf (take (nat (lastIndexOfSpace ?c0)) ?c0) summary"
    using excerptOf_take excerptOf_trans by blast
  with c0 have "excerptOf ?c1 summary"
    by simp
  then have "excerptOf (replaceStart [Lits leadInPhrases] ?c1) summary"
    using excerptOf_replaceStart excerptOf_trans by blast
  then have "excerptOf ?c2 summary"
    using excerptOf_trim excerptOf_trans by blast
  then have "excerptOf (capitalizeFirst ?c2) summary"
    using excerptOf_capitalizeFirst excerptOf_trans by blast
  with t show ?thesis
    by simp
qed

lemma titleFromTitle_excerpt:
  assumes "titleFromTitle ttl = Some t"
  shows "excerptOf t ttl"
proof -
  let ?n = "trim (replaceFirst sourceSuffixPattern (replaceStart breakingPattern ttl))"
  from assms have t: "t = ?n \<or> t = truncateAtWord ?n"
    unfolding titleFromTitle_def Let_def by (auto split: if_splits)
  have "excerptOf (replaceStart breakingPattern ttl) ttl"
    by (rule excerptOf_replaceStart)
  then have "excerptOf (replaceFirst sourceSuffixPattern (replaceStart breakingPattern ttl)) ttl"
    using excerptOf_replaceFirst_sourceSuffix excerptOf_trans by blast
  then have n: "excerptOf ?n ttl"
    using excerptOf_trim excerptOf_trans by blast
  then have "excerptOf (truncateAtWord ?n) ttl"
    using excerptOf_truncateAtWord excerptOf_trans by blast
  with n t show ?thesis
    by blast
qed

lemma titleFromDescription_excerpt:
  assumes "titleFromDescription descr = Some t"
  shows "excerptOf t descr"
proof -
  from assms have t: "t = capitalizeFirst (trim (firstSentenceOf descr))"
    unfolding titleFromDescription_def Let_def by (auto split: if_splits)
  have "excerptOf (firstSentenceOf descr) descr"
    by (rule excerptOf_firstSentenceOf)
  then have "excerptOf (trim (firstSentenceOf descr)) descr"
    using excerptOf_trim excerptOf_trans by blast
  then have "excerptOf (capitalizeFirst (trim (firstSentenceOf descr))) descr"
    using excerptOf_capitalizeFirst excerptOf_trans by blast
  with t show ?thesis
    by simp
qed

lemma titleFromSummaryChunk_excerpt:
  assumes "titleFromSummaryChunk summary = Some t"
  shows "excerptOf t summary"
proof -
  let ?c = "trim (take 60 summary)"
  from assms have t: "t = capitalizeFirst (take (nat (lastIndexOfSpace ?c)) ?c) \<or> t = capitalizeFirst ?c"
    unfolding titleFromSummaryChunk_def Let_def by (auto split: if_splits)
  have "excerptOf (take 60 summary) summary"
    by (rule excerptOf_take)
  then have c: "excerptOf ?c summary"
    using excerptOf_trim excerptOf_trans by blast
  then have c': "excerptOf (take (nat (lastIndexOfSpace ?c)) ?c) summary"
    using excerptOf_take excerptOf_trans by blast
  from c have "excerptOf (capitalizeFirst ?c) summary"
    using excerptOf_capitalizeFirst excerptOf_trans by blast
  moreover from c' have "excerptOf (capitalizeFirst (take (nat (lastIndexOfSpace ?c)) ?c)) summary"
    using excerptOf_capitalizeFirst excerptOf_trans by blast
  ultimately show ?thesis
    using t by blast
qed

lemma titleFromSummaryChunk_Some:
  "summary \<noteq> [] \<Longrightarrow> \<exists>t. titleFromSummaryChunk summary = Some t"
  by (simp add: titleFromSummaryChunk_def Let_def)

lemma strategies_excerpt:
  assumes "firstSome (\<lambda>strategy. strategy summary) [strategy1, strategy2, strategy3, strategy4] = Some t"
  shows "excerptOf t summary"
proof -
  from firstSome_SomeD [OF assms]
  have "strategy1 summary = Some t \<or> strategy2 summary = Some t
        \<or> strategy3 summary = Some t \<or> strategy4 summary = Some t"
    by auto
  then show ?thesis
    using strategy1_excerpt strategy2_excerpt strategy3_excerpt strategy4_excerpt by blast
qed

lemma includesStr_sublist: "includesStr s p \<longleftrightarrow> sublist p s"
proof (induction s)
  case Nil
  then show ?case by simp
next
  case (Cons c cs)
  have "take (length p) (c # cs) = p \<longleftrightarrow> prefix p (c # cs)"
    by (metis append_eq_conv_conj prefix_def)
  with Cons show ?case
    by (simp add: sublist_Cons_right)
qed

text \<open>
  C3, as stated, fails: for the title and summary \<^verbatim>\<open>News story\<close> (the summary of a
  single article with this title and no description) the function returns
  \<^verbatim>\<open>News story\<close>, which contains the generic phrase \<^verbatim>\<open>news story\<close>. The summary has
  10 characters, so the four strategies are skipped; the title is shorter than 15
  characters; the last block returns the summary with its first letter in upper case.
\<close>

theorem generateNeutralTitle_generic_counterexample:
  "generateNeutralTitle ''News story'' [] ''News story'' = ''News story''
   \<and> matchesGenericPattern (generateNeutralTitle ''News story'' [] ''News story'')"
  by code_simp

text \<open>
  C3, amended. For every non-empty summary, whatever the title and the description, the
  title returned is an excerpt of the summary, of the title or of the description: a
  contiguous piece of that text, letter case apart, and not a label of the function's own.
  Hence the returned title contains a phrase (such as one of the generic phrases) only
  when the summary, the title or the description contains it.
\<close>

theorem generateNeutralTitle_excerpt:
  assumes "summary \<noteq> []"
  shows "(excerptOf (generateNeutralTitle ttl descr summary) summary
          \<or> excerptOf (generateNeutralTitle ttl descr summary) ttl
          \<or> excerptOf (generateNeutralTitle ttl descr summary) descr)
       \<and> (\<forall>pattern. includesStr (toLowerCase (generateNeutralTitle ttl descr summary)) pattern \<longrightarrow>
             includesStr (toLowerCase summary) pattern
             \<or> includesStr (toLowerCase ttl) pattern
             \<or> includesStr (toLowerCase descr) pattern)"
proof -
  let ?r = "generateNeutralTitle ttl descr summary"
  let ?s = "if length summary > 10
            then firstSome (\<lambda>strategy. strategy summary) [strategy1, strategy2, strategy3, strategy4]
            else None"
  have ex: "excerptOf ?r summary \<or> excerptOf ?r ttl \<or> excerptOf ?r descr"
  proof (cases ?s)
    case (Some t)
    then have "firstSome (\<lambda>strategy. strategy summary) [strategy1, strategy2, strategy3, strategy4] = Some t"
      by (simp split: if_splits)
    then have "excerptOf t summary"
      by (rule strategies_excerpt)
    moreover from Some have "?r = t"
      by (simp add: generateNeutralTitle_def)
    ultimately show ?thesis by simp
  next
    case None
    note s = this
    show ?thesis
    proof (cases "titleFromTitle ttl")
      case (Some t)
      then have "excerptOf t ttl"
        by (rule titleFromTitle_excerpt)
      moreover from s Some have "?r = t"
        by (simp add: generateNeutralTitle_def)
      ultimately show ?thesis by simp
    next
      case None
      note tt = this
      show ?thesis
      proof (cases "titleFromDescription descr")
        case (Some t)
        then have "excerptOf t descr"
          by (rule titleFromDescription_excerpt)
        moreover from s tt Some have "?r = t"
          by (simp add: generateNeutralTitle_def)
        ultimately show ?thesis by simp
      next
        case None
        from titleFromSummaryChunk_Some [OF assms]
        obtain t where t: "titleFromSummaryChunk summary = Some t"
          by blast
        then have "excerptOf t summary"
          by (rule titleFromSummaryChunk_excerpt)
        moreover from s tt None t have "?r = t"
          by (simp add: generateNeutralTitle_def)
        ultimately show ?thesis by simp
      qed
    qed
  qed
  have "includesStr (toLowerCase src) pattern"
    if "includesStr (toLowerCase ?r) pattern" "excerptOf ?r src" for pattern src
    using that unfolding includesStr_sublist excerptOf_def
    by (rule sublist_order.order_trans)
  with ex show ?thesis
    by blast
qed

theorem generateNeutralTitle_excerpt_witness:
  "''News story'' \<noteq> []
   \<and> (excerptOf (generateNeutralTitle ''News story'' [] ''News story'') ''News story''
      \<or> excerptOf (generateNeutralTitle ''News story'' [] ''News story'') [])"
proof -
  have h: "''News story'' \<noteq> []"
    by simp
  from generateNeutralTitle_excerpt [OF h, of "''News story''" "[]"] h show ?thesis
    by blast
qed

section \<open>The summary of a group without articles\<close>

text \<open>
  C10. For a group whose \<^verbatim>\<open>articles\<close> are missing or empty, whatever the key and the
  service, \<open>summarizeArticleGroup\<close> returns the fixed result with the title
  \<^verbatim>\<open>News Story\<close>, the summary \<^verbatim>\<open>No articles to summarize.\<close>, both comparisons
  \<^verbatim>\<open>No articles available for comparison.\<close> and no differences. In lower case that
  title contains \<^verbatim>\<open>news story\<close>, one of the generic patterns, so the check \<open>isGeneric\<close>
  holds of it.
\<close>

theorem summarizeArticleGroup_no_articles:
  "summarizeArticleGroup apiKeyConfigured llmResponse gid None
     = \<lparr>summaryGroupId = gid, groupTitle = ''News Story'',
        summaryText = ''No articles to summarize.'',
        detailedComparison = ''No articles available for comparison.'',
        simpleComparison = ''No articles available for comparison.'',
        differences = []\<rparr>
   \<and> summarizeArticleGroup apiKeyConfigured llmResponse gid (Some [])
     = \<lparr>summaryGroupId = gid, groupTitle = ''News Story'',
        summaryText = ''No articles to summarize.'',
        detailedComparison = ''No articles available for comparison.'',
        simpleComparison = ''No articles available for comparison.'',
        differences = []\<rparr>
   \<and> includesStr (toLowerCase ''News Story'') ''news story''
   \<and> ''news story'' \<in> set genericPatterns
   \<and> matchesGenericPattern ''News Story''
   \<and> isGeneric (groupTitle (summarizeArticleGroup apiKeyConfigured llmResponse gid None))
   \<and> isGeneric (groupTitle (summarizeArticleGroup apiKeyConfigured llmResponse gid (Some [])))"
proof -
  have a: "includesStr (toLowerCase ''News Story'') ''news story''"
    by code_simp
  have b: "''news story'' \<in> set genericPatterns"
    by (simp add: genericPatterns_def)
  have c: "matchesGenericPattern ''News Story''"
    by code_simp
  then have d: "isGeneric ''News Story''"
    by (simp add: isGeneric_def)
  from a b c d show ?thesis
    by (simp add: summarizeArticleGroup_def)
qed


end
